theory Spec2Isabelle
  imports Main "HOL-Library.Word" "HOL-Library.Signed_Division"
begin

unbundle bit_operations_syntax

section \<open>The JOS kernel monitor (kern/monitor.c)\<close>

text \<open>
  A shallow embedding of the kernel monitor: the command registry, the four built-in
  commands, the in-place line tokenizer with the dispatcher (\<open>runcmd\<close>) and the
  read-eval loop (\<open>monitor\<close>).

  Every function that prints takes the trace of events so far and returns it extended.
  A function that may fail to return (the frame chain may be cyclic, the page loop may
  wrap around, the read-eval loop has no exit of its own) returns an option, and
  \<open>None\<close> means that the call does not return.
\<close>

subsection \<open>Words, console output and memory reads\<close>

type_synonym u32 = "32 word"

text \<open>One actual argument of a \<open>cprintf\<close> call: a string, a signed int or a 32-bit word.\<close>

datatype arg = AStr string | AInt int | AWord u32

text \<open>
  The observable events: \<open>Cprintf fmt args\<close> is one call of \<open>cprintf\<close>, and
  \<open>Load p k\<close> is one read of the word \<open>((uint32_t *) p)[k]\<close> through the pointer \<open>p\<close>.
\<close>

datatype event = Cprintf string "arg list" | Load u32 nat

type_synonym trace = "event list"

text \<open>
  Modelled from the spec: \<open>struct Eipdebuginfo\<close>, declared in kern/kdebug.h, which is
  not among the sources. It holds what the symbol lookup returns (file name, line
  number, enclosing function name and function start address), in the fields that
  \<open>mon_backtrace\<close> reads.
\<close>

record Eipdebuginfo =
  eip_file :: string
  eip_line :: int
  eip_fn_name :: string
  eip_fn_namelen :: int
  eip_fn_addr :: u32

text \<open>
  What the monitor takes from the rest of the kernel, none of it defined in monitor.c:
  the frame pointer register, the memory (the word stored at a byte address), the symbol
  lookup \<open>debuginfo_eip\<close> (its return value, 0 for success, and the record it fills in),
  the page directory register \<open>rcr3\<close>, the translation \<open>KADDR\<close> of a physical address to a
  kernel pointer, the page table walk (the pointer to the entry, 0 for NULL), \<open>strtol\<close>
  (called with a NULL end pointer; the string and the base are its arguments), the
  linker symbols printed by \<open>kerninfo\<close>, and \<open>KERNBASE\<close>. The memory is a total
  function and \<open>KADDR\<close> always returns: a fault on a read of unmapped memory and the
  panic of \<open>KADDR\<close> on an address beyond the physical memory are not modelled.
\<close>

record env =
  read_ebp :: u32
  memory :: "u32 \<Rightarrow> u32"
  debuginfo_eip :: "u32 \<Rightarrow> int \<times> Eipdebuginfo"
  rcr3 :: u32
  KADDR :: "u32 \<Rightarrow> u32"
  pgdir_walk :: "u32 \<Rightarrow> u32 \<Rightarrow> int \<Rightarrow> u32"
  strtol :: "string \<Rightarrow> int \<Rightarrow> int"
  sym_start :: u32
  sym_entry :: u32
  sym_etext :: u32
  sym_edata :: u32
  sym_end :: u32
  KERNBASE :: u32

definition load :: "env \<Rightarrow> u32 \<Rightarrow> nat \<Rightarrow> trace \<Rightarrow> u32 \<times> trace" where
  "load e p k s = (memory e (p + 4 * of_nat k), s @ [Load p k])"

text \<open>The \<open>cprintf\<close> calls of a trace, and the pointers and indices of its reads.\<close>

fun console :: "trace \<Rightarrow> (string \<times> arg list) list" where
  "console [] = []"
| "console (Cprintf fmt as # s) = (fmt, as) # console s"
| "console (Load p k # s) = console s"

fun loads :: "trace \<Rightarrow> (u32 \<times> nat) list" where
  "loads [] = []"
| "loads (Cprintf fmt as # s) = loads s"
| "loads (Load p k # s) = (p, k) # loads s"

text \<open>
  Modelled from the spec: the paging macros \<open>PGSIZE\<close>, \<open>PTE_P\<close>, \<open>PTE_W\<close>, \<open>PTE_U\<close> and
  \<open>PTE_ADDR\<close> of inc/mmu.h, which is not among the sources: the page size, the present,
  writable and user-accessible bits of a page table entry, and the mask that leaves
  the page-aligned physical frame, with the values they have on the x86 (pages of 4096
  bytes, the bits 0, 1 and 2 of an entry, the twelve low bits cleared).
\<close>

definition PGSIZE :: u32 where "PGSIZE = 4096"
definition PTE_P :: u32 where "PTE_P = 0x001"
definition PTE_W :: u32 where "PTE_W = 0x002"
definition PTE_U :: u32 where "PTE_U = 0x004"

definition PTE_ADDR :: "u32 \<Rightarrow> u32" where
  "PTE_ADDR pte = pte AND NOT 0xFFF"

text \<open>
  Modelled from the spec: the rounding macros \<open>ROUNDDOWN\<close> and \<open>ROUNDUP\<close> of inc/types.h,
  which is not among the sources; \<open>kerninfo\<close> rounds the size of the kernel image up to
  a multiple of 1024 with them. They compute on \<open>uint32_t\<close>.
\<close>

definition ROUNDDOWN :: "u32 \<Rightarrow> u32 \<Rightarrow> u32" where
  "ROUNDDOWN a n = a - a mod n"

definition ROUNDUP :: "u32 \<Rightarrow> u32 \<Rightarrow> u32" where
  "ROUNDUP a n = ROUNDDOWN (a + n - 1) n"

subsection \<open>The command registry\<close>

text \<open>
  \<open>struct Command\<close>. A handler gets \<open>argc\<close>, the strings \<open>argv[0..argc-1]\<close> point to, and
  the trap frame, which the monitor only passes on; it returns the \<open>int\<close> of the C
  function (negative to leave the monitor) with the trace.
\<close>

type_synonym 'tf handler = "nat \<Rightarrow> string list \<Rightarrow> 'tf \<Rightarrow> trace \<Rightarrow> (int \<times> trace) option"

record 'tf Command =
  name :: string
  desc :: string
  func :: "'tf handler"

text \<open>The names and descriptions of \<open>commands[]\<close>, which \<open>mon_help\<close> prints.\<close>

definition command_info :: "(string \<times> string) list" where
  "command_info =
    [(''help'', ''Display this list of commands''),
     (''kerninfo'', ''Display information about the kernel''),
     (''backtrace'', ''Display information about the backtrace''),
     (''showmappings'', ''Display memory mappings for a range of virtual addresses'')]"

subsection \<open>help and kerninfo\<close>

definition mon_help :: "'tf handler" where
  "mon_help argc argv tf s =
     Some (0, s @ map (\<lambda>(n, d). Cprintf ''%s - %s\<newline>'' [AStr n, AStr d]) command_info)"

definition mon_kerninfo :: "env \<Rightarrow> 'tf handler" where
  "mon_kerninfo e argc argv tf s =
     Some (0, s @
       [Cprintf ''Special kernel symbols:\<newline>'' [],
        Cprintf ''  _start                  %08x (phys)\<newline>'' [AWord (sym_start e)],
        Cprintf ''  entry  %08x (virt)  %08x (phys)\<newline>''
          [AWord (sym_entry e), AWord (sym_entry e - KERNBASE e)],
        Cprintf ''  etext  %08x (virt)  %08x (phys)\<newline>''
          [AWord (sym_etext e), AWord (sym_etext e - KERNBASE e)],
        Cprintf ''  edata  %08x (virt)  %08x (phys)\<newline>''
          [AWord (sym_edata e), AWord (sym_edata e - KERNBASE e)],
        Cprintf ''  end    %08x (virt)  %08x (phys)\<newline>''
          [AWord (sym_end e), AWord (sym_end e - KERNBASE e)],
        Cprintf ''Kernel executable memory footprint: %dKB\<newline>''
          [AInt (sint (ROUNDUP (sym_end e - sym_entry e) 1024) sdiv 1024)]])"

subsection \<open>backtrace\<close>

text \<open>
  The body of the \<open>while (ebp)\<close> loop: it returns the saved frame pointer \<open>ebp[0]\<close> read
  at its end, and the trace.
\<close>

definition backtrace_frame :: "env \<Rightarrow> u32 \<Rightarrow> trace \<Rightarrow> u32 \<times> trace" where
  "backtrace_frame e ebp s0 =
     (let (eip, s1) = load e ebp 1 s0;
          s2 = s1 @ [Cprintf ''  ebp %08x eip %08x '' [AWord ebp, AWord eip]];
          s3 = s2 @ [Cprintf ''args '' []];
          s4 = foldl (\<lambda>s i. let (w, s') = load e ebp (1 + i) s
                             in s' @ [Cprintf ''%08x '' [AWord w]]) s3 [1..<6];
          s5 = s4 @ [Cprintf ''\<newline>'' []];
          (r, info) = debuginfo_eip e eip;
          s6 = (if r = 0
                then s5 @ [Cprintf (CHR 0x09 # ''%s:%d: %.*s+%d\<newline>'')
                            [AStr (eip_file info), AInt (eip_line info),
                             AInt (eip_fn_namelen info), AStr (eip_fn_name info),
                             AWord (eip - eip_fn_addr info)]]
                else s5)
      in load e ebp 0 s6)"

partial_function (option) backtrace_loop :: "env \<Rightarrow> u32 \<Rightarrow> trace \<Rightarrow> trace option" where
  "backtrace_loop e ebp s =
     (if ebp \<noteq> 0
      then (case backtrace_frame e ebp s of (ebp', s') \<Rightarrow> backtrace_loop e ebp' s')
      else Some s)"

definition mon_backtrace :: "env \<Rightarrow> 'tf handler" where
  "mon_backtrace e argc argv tf s =
     (case backtrace_loop e (read_ebp e) (s @ [Cprintf ''Stack backtrace:\<newline>'' []]) of
        None \<Rightarrow> None
      | Some s' \<Rightarrow> Some (0, s'))"

subsection \<open>showmappings\<close>

text \<open>The body of the \<open>for\<close> loop over the pages, for the address \<open>va\<close>.\<close>

definition showmappings_page :: "env \<Rightarrow> u32 \<Rightarrow> u32 \<Rightarrow> trace \<Rightarrow> trace" where
  "showmappings_page e pgdir va s =
     (let pte = pgdir_walk e pgdir va 0
      in if pte = 0 then s @ [Cprintf ''va 0x%x is not mapped\<newline>'' [AWord va]]
         else let (v0, s0) = load e pte 0 s
              in if v0 AND PTE_P = 0
                 then s0 @ [Cprintf ''va 0x%x is not mapped\<newline>'' [AWord va]]
                 else let (v1, s1) = load e pte 0 s0;
                          (v2, s2) = load e pte 0 s1;
                          (v3, s3) = load e pte 0 s2;
                          (v4, s4) = load e pte 0 s3
                      in s4 @ [Cprintf ''va 0x%x: 0x%x PTE_P %d PTE_W %d PTE_U %d\<newline>''
                                [AWord va, AWord (PTE_ADDR v1), AWord (v2 AND PTE_P),
                                 AWord (v3 AND PTE_W), AWord (v4 AND PTE_U)]])"

text \<open>
  \<open>for (va = va_arg[0]; va <= va_arg[1]; va += PGSIZE)\<close> on \<open>uintptr_t\<close>: the addition
  wraps around at \<open>2^32\<close>.
\<close>

partial_function (option) showmappings_loop ::
  "env \<Rightarrow> u32 \<Rightarrow> u32 \<Rightarrow> u32 \<Rightarrow> trace \<Rightarrow> trace option" where
  "showmappings_loop e pgdir end_va va s =
     (if va \<le> end_va
      then showmappings_loop e pgdir end_va (va + PGSIZE) (showmappings_page e pgdir va s)
      else Some s)"

definition mon_showmappings :: "env \<Rightarrow> 'tf handler" where
  "mon_showmappings e argc argv tf s =
     (if argc \<noteq> 3
      then Some (0, s @ [Cprintf ''usage: showmappings begin_va end_va\<newline>'' []])
      else
        let va_arg = map (\<lambda>i. (word_of_int (strtol e (argv ! i) 0) :: u32)) [1..<argc]
        in if va_arg ! 0 > va_arg ! 1
           then Some (0, s @ [Cprintf ''begin va (0x%x) is greater than end va (0x%x)\<newline>''
                                [AWord (va_arg ! 0), AWord (va_arg ! 1)]])
           else
             let pgdir = KADDR e (rcr3 e)
             in (case showmappings_loop e pgdir (va_arg ! 1) (va_arg ! 0) s of
                   None \<Rightarrow> None
                 | Some s' \<Rightarrow> Some (0, s')))"

text \<open>The array \<open>commands[]\<close>.\<close>

definition commands :: "env \<Rightarrow> 'tf Command list" where
  "commands e =
    [\<lparr>name = ''help'', desc = ''Display this list of commands'', func = mon_help\<rparr>,
     \<lparr>name = ''kerninfo'', desc = ''Display information about the kernel'',
      func = mon_kerninfo e\<rparr>,
     \<lparr>name = ''backtrace'', desc = ''Display information about the backtrace'',
      func = mon_backtrace e\<rparr>,
     \<lparr>name = ''showmappings'',
      desc = ''Display memory mappings for a range of virtual addresses'',
      func = mon_showmappings e\<rparr>]"

subsection \<open>The command interpreter\<close>

definition NUL :: char where "NUL = CHR 0x00"

definition WHITESPACE :: string where
  "WHITESPACE = [CHR 0x09, CHR 0x0D, CHR 0x0A, CHR '' '']"

definition MAXARGS :: nat where "MAXARGS = 16"

text \<open>
  The line buffer is the list of the characters before the terminating NUL; \<open>buf\<close> is an
  index into it, and \<open>*buf\<close> at the end of the list reads the terminator.
\<close>

definition peek :: "char list \<Rightarrow> nat \<Rightarrow> char" where
  "peek b i = (if i < length b then b ! i else NUL)"

text \<open>\<open>while (*buf && strchr(WHITESPACE, *buf)) *buf++ = 0;\<close>\<close>

function gobble_whitespace :: "char list \<Rightarrow> nat \<Rightarrow> char list \<times> nat" where
  "gobble_whitespace b i =
     (if peek b i \<noteq> NUL \<and> peek b i \<in> set WHITESPACE
      then gobble_whitespace (b[i := NUL]) (Suc i)
      else (b, i))"
  by pat_completeness auto
termination
  by (relation "measure (\<lambda>(b, i). length b - i)") (auto simp: peek_def split: if_splits)

declare gobble_whitespace.simps [simp del]

text \<open>\<open>while (*buf && !strchr(WHITESPACE, *buf)) buf++;\<close>\<close>

function scan_arg :: "char list \<Rightarrow> nat \<Rightarrow> nat" where
  "scan_arg b i =
     (if peek b i \<noteq> NUL \<and> peek b i \<notin> set WHITESPACE
      then scan_arg b (Suc i)
      else i)"
  by pat_completeness auto
termination
  by (relation "measure (\<lambda>(b, i). length b - i)") (auto simp: peek_def split: if_splits)

declare scan_arg.simps [simp del]

text \<open>
  The parsing loop of \<open>runcmd\<close>, with \<open>argv\<close> the pointers saved so far (\<open>argc\<close> is their
  number). \<open>TooMany\<close> is the early return after the report, with the buffer and the
  pointers as they are at that moment; \<open>Parsed\<close> is the \<open>break\<close>.
\<close>

datatype parse_result = TooMany "char list" "nat list" | Parsed "char list" "nat list"

function parse_args :: "char list \<Rightarrow> nat \<Rightarrow> nat list \<Rightarrow> parse_result" where
  "parse_args b i argv =
     (let (b', i') = gobble_whitespace b i
      in if peek b' i' = NUL then Parsed b' argv
         else if length argv = MAXARGS - 1 then TooMany b' argv
         else parse_args b' (scan_arg b' i') (argv @ [i']))"
  by pat_completeness auto
termination
proof (relation "measure (\<lambda>(b, i, argv). length b - i)")
  show "wf (measure (\<lambda>(b, i, argv). length b - i))"
    by simp
next
  fix b :: "char list" and i :: nat and argv :: "nat list" and x b' i'
  assume x: "x = gobble_whitespace b i" and bi: "(b', i') = x"
    and nz: "peek b' i' \<noteq> NUL"
  have g: "length (fst (gobble_whitespace c j)) = length c
      \<and> j \<le> snd (gobble_whitespace c j)
      \<and> (peek (fst (gobble_whitespace c j)) (snd (gobble_whitespace c j)) = NUL
         \<or> peek (fst (gobble_whitespace c j)) (snd (gobble_whitespace c j))
             \<notin> set WHITESPACE)" for c j
  proof (induction c j rule: gobble_whitespace.induct)
    case (1 c j)
    show ?case
    proof (cases "peek c j \<noteq> NUL \<and> peek c j \<in> set WHITESPACE")
      case True
      with "1.IH" show ?thesis
        by (subst (1 2 3 4 5 6) gobble_whitespace.simps) auto
    next
      case False
      then show ?thesis
        by (subst (1 2 3 4 5 6) gobble_whitespace.simps) auto
    qed
  qed
  from g [of b i] x bi have len: "length b' = length b" and le: "i \<le> i'"
    and nws: "peek b' i' \<notin> set WHITESPACE"
    using nz by (auto simp: fst_def snd_def split: prod.splits)
  from nz have lt: "i' < length b'"
    by (auto simp: peek_def split: if_splits)
  have sc: "j \<le> scan_arg c j" for c j
    by (induction c j rule: scan_arg.induct) (subst scan_arg.simps, auto)
  have "Suc i' \<le> scan_arg b' (Suc i')"
    by (rule sc)
  moreover have "scan_arg b' i' = scan_arg b' (Suc i')"
    using nz nws by (subst scan_arg.simps) simp
  ultimately show "((b', scan_arg b' i', argv @ [i']), (b, i, argv))
      \<in> measure (\<lambda>(b, i, argv). length b - i)"
    using len le lt by auto
qed

declare parse_args.simps [simp del]

text \<open>The C string a pointer into the buffer points to: the characters up to the next NUL.\<close>

definition cstr :: "char list \<Rightarrow> nat \<Rightarrow> string" where
  "cstr b p = takeWhile (\<lambda>c. c \<noteq> NUL) (drop p b)"

text \<open>
  The lookup loop of \<open>runcmd\<close> over the registry. \<open>strcmp\<close> is in lib/string.c, not
  among the sources; \<open>strcmp(argv[0], name) == 0\<close> is taken as the equality of the two
  strings, and \<open>strchr(WHITESPACE, c)\<close> above as the membership of \<open>c\<close> in \<open>WHITESPACE\<close>.
\<close>

fun lookup_cmd :: "'tf Command list \<Rightarrow> 'tf handler" where
  "lookup_cmd [] argc argv tf s =
     Some (0, s @ [Cprintf ''Unknown command '%s'\<newline>'' [AStr (argv ! 0)]])"
| "lookup_cmd (c # cs) argc argv tf s =
     (if argv ! 0 = name c then func c argc argv tf s
      else lookup_cmd cs argc argv tf s)"

text \<open>
  \<open>runcmd\<close>, with the registry as a parameter: the kernel's \<open>runcmd\<close> is
  \<open>runcmd (commands e)\<close>.
\<close>

definition runcmd :: "'tf Command list \<Rightarrow> string \<Rightarrow> 'tf \<Rightarrow> trace \<Rightarrow> (int \<times> trace) option" where
  "runcmd cmds buf tf s =
     (case parse_args buf 0 [] of
        TooMany b argv \<Rightarrow>
          Some (0, s @ [Cprintf ''Too many arguments (max %d)\<newline>'' [AInt (int MAXARGS)]])
      | Parsed b argv \<Rightarrow>
          if length argv = 0 then Some (0, s)
          else lookup_cmd cmds (length argv) (map (cstr b) argv) tf s)"

subsection \<open>The read-eval loop\<close>

text \<open>
  \<open>readline n\<close> is the result of the \<open>n\<close>-th call of \<open>readline\<close>: a line, or \<open>None\<close> for
  NULL. The loop has no bound, so it is a partial function.
\<close>

partial_function (option) monitor_loop ::
  "'tf Command list \<Rightarrow> (nat \<Rightarrow> string option) \<Rightarrow> 'tf \<Rightarrow> nat \<Rightarrow> trace \<Rightarrow> trace option" where
  "monitor_loop cmds readline tf n s =
     (case readline n of
        None \<Rightarrow> monitor_loop cmds readline tf (Suc n) s
      | Some buf \<Rightarrow>
          (case runcmd cmds buf tf s of
             None \<Rightarrow> None
           | Some (r, s') \<Rightarrow>
               if r < 0 then Some s' else monitor_loop cmds readline tf (Suc n) s'))"

definition monitor ::
  "'tf Command list \<Rightarrow> (nat \<Rightarrow> string option) \<Rightarrow> 'tf \<Rightarrow> trace \<Rightarrow> trace option" where
  "monitor cmds readline tf s =
     monitor_loop cmds readline tf 0
       (s @ [Cprintf ''Welcome to the JOS kernel monitor!\<newline>'' [],
             Cprintf ''Type 'help' for a list of commands.\<newline>'' []])"

subsection \<open>Notions used to state the properties\<close>

text \<open>
  A frame chain: \<open>fps\<close> are the frame pointers from \<open>ebp\<close> on, none of them zero, word 0
  of each frame holds the next one, and the last link is zero.
\<close>

fun frame_chain :: "(u32 \<Rightarrow> u32) \<Rightarrow> u32 \<Rightarrow> u32 list \<Rightarrow> bool" where
  "frame_chain m ebp [] = (ebp = 0)"
| "frame_chain m ebp (f # fs) = (ebp = f \<and> f \<noteq> 0 \<and> frame_chain m (m f) fs)"

text \<open>
  The \<open>cprintf\<close> calls that make up the line of the frame at \<open>fp\<close>: the frame pointer, the
  return address one word above it and the five words above that.
\<close>

definition frame_line :: "env \<Rightarrow> u32 \<Rightarrow> (string \<times> arg list) list" where
  "frame_line e fp =
    [(''  ebp %08x eip %08x '', [AWord fp, AWord (memory e (fp + 4))]),
     (''args '', []),
     (''%08x '', [AWord (memory e (fp + 8))]),
     (''%08x '', [AWord (memory e (fp + 12))]),
     (''%08x '', [AWord (memory e (fp + 16))]),
     (''%08x '', [AWord (memory e (fp + 20))]),
     (''%08x '', [AWord (memory e (fp + 24))]),
     (''\<newline>'', [])]"

text \<open>The reads of one iteration of the unwinder through the frame pointer \<open>fp\<close>.\<close>

definition frame_loads :: "u32 \<Rightarrow> (u32 \<times> nat) list" where
  "frame_loads fp = [(fp, 1), (fp, 2), (fp, 3), (fp, 4), (fp, 5), (fp, 6), (fp, 0)]"

text \<open>
  For \<open>begin \<le> end\<close>, the addresses \<open>begin\<close>, \<open>begin + PGSIZE\<close>, ... that do not exceed
  \<open>end\<close>.
\<close>

definition page_addrs :: "u32 \<Rightarrow> u32 \<Rightarrow> u32 list" where
  "page_addrs begin_va end_va =
     map (\<lambda>k. begin_va + of_nat k * PGSIZE)
       [0..<Suc ((unat end_va - unat begin_va) div unat PGSIZE)]"

text \<open>
  The maximal runs of non-whitespace characters of a line, in order, and the line with
  every whitespace character replaced by NUL.
\<close>

function tokens :: "string \<Rightarrow> string list" where
  "tokens s =
     (case dropWhile (\<lambda>c. c \<in> set WHITESPACE) s of
        [] \<Rightarrow> []
      | c # r \<Rightarrow> takeWhile (\<lambda>c. c \<notin> set WHITESPACE) (c # r)
                 # tokens (dropWhile (\<lambda>c. c \<notin> set WHITESPACE) (c # r)))"
  by pat_completeness auto
termination
proof (relation "measure length")
  show "wf (measure length)"
    by simp
next
  fix s :: string and c r
  assume d: "dropWhile (\<lambda>c. c \<in> set WHITESPACE) s = c # r"
  have "length (dropWhile (\<lambda>c. c \<notin> set WHITESPACE) (c # r)) \<le> length (c # r)"
    by (rule length_dropWhile_le)
  moreover have "c \<notin> set WHITESPACE"
    using d hd_dropWhile [of "\<lambda>c. c \<in> set WHITESPACE" s] by auto
  then have "dropWhile (\<lambda>c. c \<notin> set WHITESPACE) (c # r)
      = dropWhile (\<lambda>c. c \<notin> set WHITESPACE) r"
    by simp
  moreover have "length (dropWhile (\<lambda>c. c \<notin> set WHITESPACE) r) \<le> length r"
    by (rule length_dropWhile_le)
  moreover have "length (c # r) \<le> length s"
    using length_dropWhile_le [of "\<lambda>c. c \<in> set WHITESPACE" s] d by simp
  ultimately show "(dropWhile (\<lambda>c. c \<notin> set WHITESPACE) (c # r), s) \<in> measure length"
    by simp
qed

declare tokens.simps [simp del]

definition zero_whitespace :: "string \<Rightarrow> char list" where
  "zero_whitespace s = map (\<lambda>c. if c \<in> set WHITESPACE then NUL else c) s"

text \<open>
  A synthetic environment: two frames at \<open>0x2000\<close> and \<open>0x3000\<close>, of which only the first
  return address has symbols; a page directory that maps the page at \<open>0x1000\<close> with all
  three bits set and the page at \<open>0x2000\<close> with the present bit clear, and has no entry
  elsewhere; and a \<open>strtol\<close> that knows a few literals.
\<close>

definition synthetic_env :: env where
  "synthetic_env =
    \<lparr>read_ebp = 0x2000,
     memory = (\<lambda>a. if a = 0x2000 then 0x3000 else if a = 0x2004 then 0x100010
                  else if a = 0x2008 then 1 else if a = 0x3000 then 0
                  else if a = 0x3004 then 0x100020 else if a = 0x5004 then 0x00123007
                  else if a = 0x5008 then 0x00456006 else 0),
     debuginfo_eip = (\<lambda>eip. if eip = 0x100010
        then (0, \<lparr>eip_file = ''kern/init.c'', eip_line = 24, eip_fn_name = ''i386_init'',
                  eip_fn_namelen = 9, eip_fn_addr = 0x100000\<rparr>)
        else (-1, \<lparr>eip_file = ''<unknown>'', eip_line = 0, eip_fn_name = ''<unknown>'',
                   eip_fn_namelen = 9, eip_fn_addr = eip\<rparr>)),
     rcr3 = 0x00110000,
     KADDR = (\<lambda>pa. pa + 0xF0000000),
     pgdir_walk = (\<lambda>pgdir va create.
        if pgdir = 0xF0110000 \<and> drop_bit 12 va = 1 then 0x5004
        else if pgdir = 0xF0110000 \<and> drop_bit 12 va = 2 then 0x5008 else 0),
     strtol = (\<lambda>str base.
        if str = ''0x1000'' then 0x1000 else if str = ''0x1001'' then 0x1001
        else if str = ''0x3000'' then 0x3000 else if str = ''0xfffff000'' then 0xfffff000
        else if str = ''0xffffffff'' then 0xffffffff else 0),
     sym_start = 0x0010000C,
     sym_entry = 0xF010000C,
     sym_etext = 0xF0101A75,
     sym_edata = 0xF0112300,
     sym_end = 0xF0112960,
     KERNBASE = 0xF0000000\<rparr>"

text \<open>
  A registry whose only command returns \<open>-1\<close>, and a \<open>readline\<close> that fails once and
  then yields that command for ever.
\<close>

definition stop_registry :: "unit Command list" where
  "stop_registry =
    [\<lparr>name = ''exit'', desc = ''Leave the monitor'', func = (\<lambda>argc argv tf s. Some (- 1, s))\<rparr>]"

definition exit_lines :: "nat \<Rightarrow> string option" where
  "exit_lines n = (if n = 0 then None else Some ''exit'')"

text \<open>A line of sixteen tokens, with a space after the last one.\<close>

definition sixteen_tokens :: string where
  "sixteen_tokens = ''1 2 3 4 5 6 7 8 9 10 11 12 13 14 15 16 ''"

section \<open>Properties\<close>

subsection \<open>Auxiliary facts\<close>

lemma console_append: "console (s @ t) = console s @ console t"
  by (induction s rule: console.induct) auto

lemma loads_append: "loads (s @ t) = loads s @ loads t"
  by (induction s rule: loads.induct) auto

lemma commands_info:
  "map (\<lambda>c. (name c, desc c)) (commands e) = command_info"
  by (simp add: commands_def command_info_def)

lemma upt_Suc0_3: "[Suc 0..<3] = [Suc 0, 2]"
  by (simp add: upt_rec)

lemma mon_showmappings_3:
  "mon_showmappings e 3 argv tf s =
     (if (word_of_int (strtol e (argv ! 2) 0) :: u32) < word_of_int (strtol e (argv ! 1) 0)
      then Some (0, s @ [Cprintf ''begin va (0x%x) is greater than end va (0x%x)\<newline>''
                          [AWord (word_of_int (strtol e (argv ! 1) 0)),
                           AWord (word_of_int (strtol e (argv ! 2) 0))]])
      else (case showmappings_loop e (KADDR e (rcr3 e)) (word_of_int (strtol e (argv ! 2) 0))
                   (word_of_int (strtol e (argv ! 1) 0)) s of
              None \<Rightarrow> None
            | Some s' \<Rightarrow> Some (0, s')))"
  by (simp add: mon_showmappings_def Let_def upt_Suc0_3)

lemma PTE_ADDR_aligned: "PTE_ADDR v AND 0xFFF = 0"
  unfolding PTE_ADDR_def
  by (simp add: and.assoc)

lemma PTE_ADDR_frame: "PTE_ADDR v + (v AND 0xFFF) = v"
proof -
  have "(v AND NOT 0xFFF) AND (v AND 0xFFF) = 0"
    by (simp add: bit_eq_iff bit_simps)
  then have "(v AND NOT 0xFFF) + (v AND 0xFFF) = (v AND NOT 0xFFF) OR (v AND 0xFFF)"
    by (rule disjunctive_add_eq_or)
  also have "\<dots> = v"
    by (auto simp: bit_eq_iff bit_simps)
  finally show ?thesis
    by (simp add: PTE_ADDR_def)
qed

lemma PTE_W_bit: "(v AND PTE_W \<noteq> 0) = bit v 1"
  using and_exp_eq_0_iff_not_bit [of v 1] by (simp add: PTE_W_def)

lemma PTE_U_bit: "(v AND PTE_U \<noteq> 0) = bit v 2"
  using and_exp_eq_0_iff_not_bit [of v 2] by (simp add: PTE_U_def)

lemma showmappings_page_console:
  "console (showmappings_page e pgdir va s) = console s @
     [if pgdir_walk e pgdir va 0 = 0 \<or> memory e (pgdir_walk e pgdir va 0) AND PTE_P = 0
      then (''va 0x%x is not mapped\<newline>'', [AWord va])
      else (''va 0x%x: 0x%x PTE_P %d PTE_W %d PTE_U %d\<newline>'',
            [AWord va, AWord (PTE_ADDR (memory e (pgdir_walk e pgdir va 0))),
             AWord (memory e (pgdir_walk e pgdir va 0) AND PTE_P),
             AWord (memory e (pgdir_walk e pgdir va 0) AND PTE_W),
             AWord (memory e (pgdir_walk e pgdir va 0) AND PTE_U)])]"
  by (simp add: showmappings_page_def load_def Let_def console_append)

subsection \<open>The mapping inspector: one page\<close>

text \<open>
  C3. For an inspected page whose page table entry exists (\<open>pgdir_walk\<close> returns a
  pointer other than NULL) and has the present bit set, the inspector prints one line
  with the address, the entry masked to the page-aligned physical frame (the twelve low
  bits cleared, the other bits those of the entry), and the three bits: the present flag
  is then nonzero, the writable and the user flag are nonzero exactly when bit 1 and
  bit 2 of the entry are set, and when all three bits are set all three flags are
  nonzero.
\<close>

theorem showmappings_page_present:
  assumes "pgdir_walk e pgdir va 0 = pte" and "pte \<noteq> 0"
    and "memory e pte AND PTE_P \<noteq> 0"
  shows "\<exists>pa fp fw fu.
      console (showmappings_page e pgdir va s)
        = console s @ [(''va 0x%x: 0x%x PTE_P %d PTE_W %d PTE_U %d\<newline>'',
                        [AWord va, AWord pa, AWord fp, AWord fw, AWord fu])]
    \<and> pa = memory e pte AND NOT 0xFFF
    \<and> pa AND 0xFFF = 0
    \<and> pa + (memory e pte AND 0xFFF) = memory e pte
    \<and> fp \<noteq> 0
    \<and> (fw \<noteq> 0 \<longleftrightarrow> bit (memory e pte) 1)
    \<and> (fu \<noteq> 0 \<longleftrightarrow> bit (memory e pte) 2)
    \<and> (memory e pte AND 7 = 7 \<longrightarrow> fp \<noteq> 0 \<and> fw \<noteq> 0 \<and> fu \<noteq> 0)"
proof -
  let ?v = "memory e pte"
  have all: "?v AND 7 = 7 \<Longrightarrow> bit ?v 1 \<and> bit ?v 2"
  proof -
    assume a: "?v AND 7 = 7"
    have "bit (?v AND 7) 1" "bit (?v AND 7) 2"
      unfolding a by (simp_all add: bit_simps)
    then show ?thesis
      by (simp add: bit_and_iff)
  qed
  show ?thesis
    apply (rule exI [of _ "PTE_ADDR ?v"])
    apply (rule exI [of _ "?v AND PTE_P"])
    apply (rule exI [of _ "?v AND PTE_W"])
    apply (rule exI [of _ "?v AND PTE_U"])
    using assms all
    by (simp add: showmappings_page_console PTE_ADDR_aligned PTE_ADDR_frame PTE_W_bit PTE_U_bit)
      (simp add: PTE_ADDR_def)
qed

theorem showmappings_page_present_witness:
  "\<exists>pa fp fw fu.
      console (showmappings_page synthetic_env 0xF0110000 0x1000 [])
        = [(''va 0x%x: 0x%x PTE_P %d PTE_W %d PTE_U %d\<newline>'',
            [AWord 0x1000, AWord pa, AWord fp, AWord fw, AWord fu])]
    \<and> pa = 0x00123000 \<and> fp \<noteq> 0 \<and> fw \<noteq> 0 \<and> fu \<noteq> 0"
proof -
  have w: "pgdir_walk synthetic_env 0xF0110000 0x1000 0 = 0x5004"
    by (simp add: synthetic_env_def)
  have m: "memory synthetic_env 0x5004 = 0x00123007"
    by (simp add: synthetic_env_def)
  have n: "(0x5004 :: u32) \<noteq> 0"
    by simp
  have p: "memory synthetic_env 0x5004 AND PTE_P \<noteq> 0"
    by (simp add: m PTE_P_def)
  from showmappings_page_present [OF w n p, of "[]"] show ?thesis
    by (auto simp: m)
qed

subsection \<open>The mapping inspector: rejected invocations\<close>

text \<open>
  C5. When \<open>argc\<close> is not 3, \<open>showmappings\<close> prints the usage message, and when it
  is 3 and the parsed begin address is greater than the parsed end address it prints the
  rejection message; in both cases this one \<open>cprintf\<close> is all that is added to the
  trace (no page is walked or read), and the handler returns 0, which is "continue".
\<close>

theorem mon_showmappings_rejects:
  "(argc \<noteq> 3 \<longrightarrow>
      mon_showmappings e argc argv tf s
        = Some (0, s @ [Cprintf ''usage: showmappings begin_va end_va\<newline>'' []]))
   \<and> (argc = 3 \<and> (word_of_int (strtol e (argv ! 2) 0) :: u32)
                    < word_of_int (strtol e (argv ! 1) 0) \<longrightarrow>
      mon_showmappings e argc argv tf s
        = Some (0, s @ [Cprintf ''begin va (0x%x) is greater than end va (0x%x)\<newline>''
                          [AWord (word_of_int (strtol e (argv ! 1) 0)),
                           AWord (word_of_int (strtol e (argv ! 2) 0))]]))"
proof (intro conjI impI)
  assume "argc \<noteq> 3"
  then show "mon_showmappings e argc argv tf s
      = Some (0, s @ [Cprintf ''usage: showmappings begin_va end_va\<newline>'' []])"
    by (simp add: mon_showmappings_def)
next
  assume "argc = 3 \<and> (word_of_int (strtol e (argv ! 2) 0) :: u32)
      < word_of_int (strtol e (argv ! 1) 0)"
  then show "mon_showmappings e argc argv tf s
      = Some (0, s @ [Cprintf ''begin va (0x%x) is greater than end va (0x%x)\<newline>''
                          [AWord (word_of_int (strtol e (argv ! 1) 0)),
                           AWord (word_of_int (strtol e (argv ! 2) 0))]])"
    by (simp add: mon_showmappings_3)
qed

theorem mon_showmappings_rejects_witness:
  "mon_showmappings synthetic_env 2 [''showmappings'', ''0x1000''] () []
     = Some (0, [Cprintf ''usage: showmappings begin_va end_va\<newline>'' []])
   \<and> mon_showmappings synthetic_env 3 [''showmappings'', ''0x3000'', ''0x1000''] () []
     = Some (0, [Cprintf ''begin va (0x%x) is greater than end va (0x%x)\<newline>''
                   [AWord 0x3000, AWord 0x1000]])"
  using mon_showmappings_rejects [of 2 synthetic_env "[''showmappings'', ''0x1000'']" "()" "[]"]
    mon_showmappings_rejects [of 3 synthetic_env "[''showmappings'', ''0x3000'', ''0x1000'']" "()" "[]"]
  by (simp add: synthetic_env_def)

subsection \<open>The dispatcher\<close>

lemmas tok_eval = parse_args.simps gobble_whitespace.simps scan_arg.simps peek_def NUL_def
  WHITESPACE_def MAXARGS_def

lemma lookup_cmd_find:
  "lookup_cmd cmds argc argv tf s =
     (case find (\<lambda>c. name c = argv ! 0) cmds of
        None \<Rightarrow> Some (0, s @ [Cprintf ''Unknown command '%s'\<newline>'' [AStr (argv ! 0)]])
      | Some c \<Rightarrow> func c argc argv tf s)"
  by (induction cmds) auto

text \<open>
  C7. A dispatch call, for any registry \<open>cmds\<close>: when the line has no token, \<open>runcmd\<close>
  returns 0 and leaves the trace as it is; when no command is named as the first token,
  it prints the unknown-command message with that token and returns 0 (whatever the
  handlers of the registry are, so none of them runs); otherwise the result is that of
  the handler of the first command in registry order with that name, called with the
  number of tokens, all the tokens (the command name first) and the trap frame.
\<close>

theorem runcmd_dispatch:
  "(parse_args buf 0 [] = Parsed b [] \<longrightarrow> runcmd cmds buf tf s = Some (0, s))
   \<and> (parse_args buf 0 [] = Parsed b (p # ps)
        \<and> find (\<lambda>c. name c = cstr b p) cmds = None \<longrightarrow>
      runcmd cmds buf tf s
        = Some (0, s @ [Cprintf ''Unknown command '%s'\<newline>'' [AStr (cstr b p)]]))
   \<and> (parse_args buf 0 [] = Parsed b (p # ps)
        \<and> find (\<lambda>c. name c = cstr b p) cmds = Some c \<longrightarrow>
      runcmd cmds buf tf s
        = func c (length (p # ps)) (map (cstr b) (p # ps)) tf s)"
  by (simp add: runcmd_def lookup_cmd_find)

theorem runcmd_dispatch_witness:
  "runcmd (commands synthetic_env) '' '' () [] = Some (0, [])
   \<and> runcmd (commands synthetic_env) ''exit now'' () []
       = Some (0, [Cprintf ''Unknown command '%s'\<newline>'' [AStr ''exit'']])
   \<and> runcmd (commands synthetic_env) ''help me'' () [] = mon_help 2 [''help'', ''me''] () []"
proof -
  have 1: "parse_args '' '' 0 [] = Parsed [NUL] []"
    by (simp add: tok_eval)
  have 2: "parse_args ''exit now'' 0 [] = Parsed (''exit'' @ NUL # ''now'') [0, 5]"
    by (simp add: tok_eval)
  have 3: "parse_args ''help me'' 0 [] = Parsed (''help'' @ NUL # ''me'') [0, 5]"
    by (simp add: tok_eval)
  have c: "cstr (''exit'' @ NUL # ''now'') 0 = ''exit''"
    "cstr (''help'' @ NUL # ''me'') 0 = ''help''" "cstr (''help'' @ NUL # ''me'') 5 = ''me''"
    by (simp_all add: cstr_def NUL_def)
  have f2: "find (\<lambda>c. name c = cstr (''exit'' @ NUL # ''now'') 0)
      (commands synthetic_env :: unit Command list) = None"
    unfolding c by (simp add: commands_def)
  have f3: "find (\<lambda>c. name c = cstr (''help'' @ NUL # ''me'') 0)
      (commands synthetic_env :: unit Command list)
      = Some \<lparr>name = ''help'', desc = ''Display this list of commands'', func = mon_help\<rparr>"
    unfolding c by (simp add: commands_def)
  from runcmd_dispatch [where buf = "'' ''" and b = "[NUL]"
      and cmds = "commands synthetic_env" and tf = "()" and s = "[]"] 1
  have "runcmd (commands synthetic_env) '' '' () [] = Some (0, [])"
    by simp
  moreover
  from runcmd_dispatch [where buf = "''exit now''" and b = "''exit'' @ NUL # ''now''"
      and p = 0 and ps = "[5]" and cmds = "commands synthetic_env" and tf = "()"
      and s = "[]"] 2 f2
  have "runcmd (commands synthetic_env) ''exit now'' () []
       = Some (0, [Cprintf ''Unknown command '%s'\<newline>'' [AStr ''exit'']])"
    using c by simp
  moreover
  from runcmd_dispatch [where buf = "''help me''" and b = "''help'' @ NUL # ''me''"
      and p = 0 and ps = "[5]" and cmds = "commands synthetic_env" and tf = "()"
      and s = "[]"
      and c = "\<lparr>name = ''help'', desc = ''Display this list of commands'', func = mon_help\<rparr>"]
    3 f3
  have "runcmd (commands synthetic_env) ''help me'' () [] = mon_help 2 [''help'', ''me''] () []"
    using c by (simp add: numeral_2_eq_2)
  ultimately show ?thesis
    by simp
qed

subsection \<open>Leaving the read-eval loop\<close>

lemma builtin_returns_0:
  assumes "c \<in> set (commands e)" and "func c argc argv tf s = Some (r, s')"
  shows "r = 0"
  using assms
  by (auto simp: commands_def mon_help_def mon_kerninfo_def mon_backtrace_def
      mon_showmappings_def Let_def split: option.splits if_splits)

lemma lookup_cmd_stop:
  assumes "lookup_cmd cmds argc argv tf s = Some (r, s')" and "r \<noteq> 0"
  shows "\<exists>c \<in> set cmds. func c argc argv tf s = Some (r, s')"
  using assms
  by (induction cmds) (auto split: if_splits)

lemma runcmd_stop:
  assumes "runcmd cmds buf tf s = Some (r, s')" and "r \<noteq> 0"
  shows "\<exists>c \<in> set cmds. \<exists>argc argv. func c argc argv tf s = Some (r, s')"
  using assms
  by (auto simp: runcmd_def split: parse_result.splits if_splits)
    (blast dest: lookup_cmd_stop)

lemma runcmd_builtin_0:
  assumes "runcmd (commands e) buf tf s = Some (r, s')"
  shows "r = 0"
proof (rule ccontr)
  assume "r \<noteq> 0"
  from runcmd_stop [OF assms this] obtain c argc argv
    where "c \<in> set (commands e)" and "func c argc argv tf s = Some (r, s')"
    by blast
  from builtin_returns_0 [OF this] \<open>r \<noteq> 0\<close> show False
    by simp
qed

lemma monitor_loop_stop:
  assumes "monitor_loop cmds readline tf n s = Some s'"
  shows "\<exists>k \<ge> n. \<exists>buf sk r. readline k = Some buf
           \<and> runcmd cmds buf tf sk = Some (r, s') \<and> r < 0"
  using assms
proof (induction cmds readline tf n s s' rule: monitor_loop.raw_induct [rotated 1, consumes 1])
  case (1 loop cmds readline tf n s s')
  show ?case
  proof (cases "readline n")
    case None
    with "1.hyps" have "loop cmds readline tf (Suc n) s = Some s'"
      by simp
    from "1.IH" [OF this] show ?thesis
      by (meson Suc_leD)
  next
    case (Some buf)
    show ?thesis
    proof (cases "runcmd cmds buf tf s")
      case None
      with Some "1.hyps" show ?thesis
        by simp
    next
      case (Some rs)
      obtain r s1 where rs: "rs = (r, s1)"
        by (cases rs)
      show ?thesis
      proof (cases "r < 0")
        case True
        with \<open>readline n = Some buf\<close> Some rs "1.hyps" have "s1 = s'"
          by simp
        with True \<open>readline n = Some buf\<close> Some rs show ?thesis
          by blast
      next
        case False
        with \<open>readline n = Some buf\<close> Some rs "1.hyps"
        have "loop cmds readline tf (Suc n) s1 = Some s'"
          by simp
        from "1.IH" [OF this] show ?thesis
          by (meson Suc_leD)
      qed
    qed
  qed
qed

lemma monitor_builtin_None: "monitor_loop (commands e) readline tf n s = None"
proof (cases "monitor_loop (commands e) readline tf n s")
  case None
  then show ?thesis .
next
  case (Some s')
  from monitor_loop_stop [OF this] obtain buf sk r
    where "runcmd (commands e) buf tf sk = Some (r, s')" and "r < 0"
    by blast
  with runcmd_builtin_0 show ?thesis
    by fastforce
qed

text \<open>
  C9. For any registry: if the loop of \<open>monitor\<close> returns, then at some iteration a line
  was read and the handler dispatched for it returned a negative value (the stop
  signal); an iteration whose \<open>readline\<close> yields no line goes on to the next one with
  the trace unchanged, so without a call of \<open>runcmd\<close>; an iteration whose dispatch
  returns a value that is not negative (the unknown-command report, the usage messages
  and every other return of 0) goes on to the next one. No handler of the built-in
  registry returns anything but 0, whatever its arguments, and with the built-in
  registry \<open>monitor\<close> never returns, whatever the input.
\<close>

theorem monitor_terminates_only_on_stop:
  "(monitor_loop cmds readline tf n s = Some s' \<longrightarrow>
      (\<exists>k \<ge> n. \<exists>buf sk r. readline k = Some buf \<and> r < 0
         \<and> runcmd cmds buf tf sk = Some (r, s')
         \<and> (\<exists>c \<in> set cmds. \<exists>argc argv. func c argc argv tf sk = Some (r, s'))))
   \<and> (readline n = None \<longrightarrow>
        monitor_loop cmds readline tf n s = monitor_loop cmds readline tf (Suc n) s)
   \<and> (readline n = Some buf \<and> runcmd cmds buf tf s = Some (rv, sv) \<and> 0 \<le> rv \<longrightarrow>
        monitor_loop cmds readline tf n s = monitor_loop cmds readline tf (Suc n) sv)
   \<and> (\<forall>c \<in> set (commands e). \<forall>argc argv s1 r1 s2.
        func c argc argv tf s1 = Some (r1, s2) \<longrightarrow> r1 = 0)
   \<and> monitor (commands e) readline tf s = None"
proof (intro conjI impI ballI allI)
  assume a: "monitor_loop cmds readline tf n s = Some s'"
  from monitor_loop_stop [OF a] obtain k buf sk r
    where k: "n \<le> k" "readline k = Some buf" "runcmd cmds buf tf sk = Some (r, s')" "r < 0"
    by blast
  from runcmd_stop [OF k(3)] k(4)
  have "\<exists>c \<in> set cmds. \<exists>argc argv. func c argc argv tf sk = Some (r, s')"
    by simp
  with k show "\<exists>k \<ge> n. \<exists>buf sk r. readline k = Some buf \<and> r < 0
         \<and> runcmd cmds buf tf sk = Some (r, s')
         \<and> (\<exists>c \<in> set cmds. \<exists>argc argv. func c argc argv tf sk = Some (r, s'))"
    by blast
next
  assume "readline n = None"
  then show "monitor_loop cmds readline tf n s = monitor_loop cmds readline tf (Suc n) s"
    by (subst monitor_loop.simps) simp
next
  assume "readline n = Some buf \<and> runcmd cmds buf tf s = Some (rv, sv) \<and> 0 \<le> rv"
  then show "monitor_loop cmds readline tf n s = monitor_loop cmds readline tf (Suc n) sv"
    by (subst monitor_loop.simps) simp
next
  fix c :: "'a Command" and argc argv s1 r1 s2
  assume "c \<in> set (commands e)" and "func c argc argv tf s1 = Some (r1, s2)"
  then show "r1 = 0"
    by (rule builtin_returns_0)
next
  show "monitor (commands e) readline tf s = None"
    by (simp add: monitor_def monitor_builtin_None)
qed

theorem monitor_terminates_only_on_stop_witness:
  "monitor_loop stop_registry exit_lines () 0 [] = Some []
   \<and> (\<exists>k buf sk r. exit_lines k = Some buf \<and> r < 0
         \<and> runcmd stop_registry buf () sk = Some (r, []))
   \<and> monitor_loop stop_registry exit_lines () 0 []
       = monitor_loop stop_registry exit_lines () (Suc 0) []
   \<and> monitor_loop stop_registry (\<lambda>n. Some ''help'') () 0 []
       = monitor_loop stop_registry (\<lambda>n. Some ''help'') () (Suc 0)
           [Cprintf ''Unknown command '%s'\<newline>'' [AStr ''help'']]
   \<and> monitor (commands synthetic_env) exit_lines () [] = None"
proof -
  have p: "parse_args ''exit'' 0 [] = Parsed ''exit'' [0]"
    "parse_args ''help'' 0 [] = Parsed ''help'' [0]"
    by (simp_all add: tok_eval)
  have r1: "runcmd stop_registry ''exit'' () [] = Some (- 1, [])"
    by (simp add: runcmd_def p stop_registry_def cstr_def NUL_def)
  have r2: "runcmd stop_registry ''help'' () []
      = Some (0, [Cprintf ''Unknown command '%s'\<newline>'' [AStr ''help'']])"
    by (simp add: runcmd_def p stop_registry_def cstr_def NUL_def)
  have l1: "monitor_loop stop_registry exit_lines () (Suc 0) [] = Some []"
    by (subst monitor_loop.simps) (simp add: exit_lines_def r1)
  have l0: "monitor_loop stop_registry exit_lines () 0 [] = Some []"
    by (subst monitor_loop.simps) (simp add: exit_lines_def l1)
  note A = monitor_terminates_only_on_stop [where cmds = stop_registry and readline = exit_lines
      and tf = "()" and n = 0 and s = "[]" and s' = "[]" and e = synthetic_env]
  note B = monitor_terminates_only_on_stop [where cmds = stop_registry
      and readline = "\<lambda>n. Some ''help''" and tf = "()" and n = 0 and s = "[]"
      and buf = "''help''" and rv = 0
      and sv = "[Cprintf ''Unknown command '%s'\<newline>'' [AStr ''help'']]"]
  from A l0 have "\<exists>k buf sk r. exit_lines k = Some buf \<and> r < 0
         \<and> runcmd stop_registry buf () sk = Some (r, [])"
    by blast
  moreover from A have "monitor_loop stop_registry exit_lines () 0 []
       = monitor_loop stop_registry exit_lines () (Suc 0) []"
    by (simp add: exit_lines_def)
  moreover from B r2 have "monitor_loop stop_registry (\<lambda>n. Some ''help'') () 0 []
       = monitor_loop stop_registry (\<lambda>n. Some ''help'') () (Suc 0)
           [Cprintf ''Unknown command '%s'\<newline>'' [AStr ''help'']]"
    by simp
  moreover from A have "monitor (commands synthetic_env) exit_lines () [] = None"
    by blast
  ultimately show ?thesis
    using l0 by simp
qed

subsection \<open>The stack unwinder\<close>

lemma upt_1_6: "[Suc 0..<6] = [Suc 0, 2, 3, 4, 5]"
  by (simp add: upt_rec)

lemma backtrace_frame_append:
  "backtrace_frame e fp s = (memory e fp, s @ snd (backtrace_frame e fp []))"
  by (simp add: backtrace_frame_def load_def Let_def upt_1_6 split: prod.splits)

lemma backtrace_frame_console:
  "console (snd (backtrace_frame e fp [])) =
     frame_line e fp @
     (if fst (debuginfo_eip e (memory e (fp + 4))) = 0
      then [(CHR 0x09 # ''%s:%d: %.*s+%d\<newline>'',
             [AStr (eip_file (snd (debuginfo_eip e (memory e (fp + 4))))),
              AInt (eip_line (snd (debuginfo_eip e (memory e (fp + 4))))),
              AInt (eip_fn_namelen (snd (debuginfo_eip e (memory e (fp + 4))))),
              AStr (eip_fn_name (snd (debuginfo_eip e (memory e (fp + 4))))),
              AWord (memory e (fp + 4)
                     - eip_fn_addr (snd (debuginfo_eip e (memory e (fp + 4)))))])]
      else [])"
  by (simp add: backtrace_frame_def load_def Let_def upt_1_6 frame_line_def console_append
      split: prod.splits)

lemma backtrace_frame_loads:
  "loads (snd (backtrace_frame e fp [])) = frame_loads fp"
  by (simp add: backtrace_frame_def load_def Let_def upt_1_6 frame_loads_def loads_append
      split: prod.splits)

lemma backtrace_loop_chain:
  assumes "frame_chain (memory e) ebp fps"
  shows "backtrace_loop e ebp s
      = Some (s @ concat (map (\<lambda>fp. snd (backtrace_frame e fp [])) fps))"
  using assms
proof (induction fps arbitrary: ebp s)
  case Nil
  then show ?case
    by (subst backtrace_loop.simps) simp
next
  case (Cons f fs)
  from Cons.prems have f: "ebp = f" "f \<noteq> 0" and rest: "frame_chain (memory e) (memory e f) fs"
    by simp_all
  have "backtrace_loop e ebp s
      = backtrace_loop e (memory e f) (s @ snd (backtrace_frame e f []))"
    using f by (subst backtrace_loop.simps) (simp add: backtrace_frame_append [of e f s])
  also have "\<dots> = Some ((s @ snd (backtrace_frame e f []))
      @ concat (map (\<lambda>fp. snd (backtrace_frame e fp [])) fs))"
    by (rule Cons.IH [OF rest])
  finally show ?case
    by simp
qed

lemma console_concat: "console (concat ts) = concat (map console ts)"
  by (induction ts) (simp_all add: console_append)

lemma loads_concat: "loads (concat ts) = concat (map loads ts)"
  by (induction ts) (simp_all add: loads_append)

lemma mon_backtrace_chain_trace:
  assumes "frame_chain (memory e) (read_ebp e) fps"
  shows "mon_backtrace e argc argv tf s
      = Some (0, s @ Cprintf ''Stack backtrace:\<newline>'' []
                 # concat (map (\<lambda>fp. snd (backtrace_frame e fp [])) fps))"
  by (simp add: mon_backtrace_def backtrace_loop_chain [OF assms])

lemma frame_chain_nonzero: "frame_chain m ebp fps \<Longrightarrow> 0 \<notin> set fps"
  by (induction fps arbitrary: ebp) auto

lemma synthetic_chain:
  "frame_chain (memory synthetic_env) (read_ebp synthetic_env) [0x2000, 0x3000]"
  by (simp add: synthetic_env_def)

text \<open>
  C2. When the frame pointers from the current one on form a chain \<open>fps\<close> of \<open>N\<close> frames
  (word 0 of each frame holds the next frame pointer, the last link is zero),
  \<open>backtrace\<close> returns 0; apart from the symbol lines its output is the header followed
  by the \<open>N\<close> frame lines in order, each made of the frame pointer, the word one above
  it and the five words above that; it makes exactly the seven reads of each frame,
  all of them through a pointer of the chain and none through zero.
\<close>

theorem mon_backtrace_chain:
  assumes "frame_chain (memory e) (read_ebp e) fps"
  shows "\<exists>t. mon_backtrace e argc argv tf s = Some (0, s @ t)
    \<and> filter (\<lambda>c. fst c \<noteq> CHR 0x09 # ''%s:%d: %.*s+%d\<newline>'') (console t)
        = (''Stack backtrace:\<newline>'', []) # concat (map (frame_line e) fps)
    \<and> length (filter (\<lambda>c. fst c = ''  ebp %08x eip %08x '') (console t)) = length fps
    \<and> loads t = concat (map frame_loads fps)
    \<and> (\<forall>(p, k) \<in> set (loads t). p \<in> set fps \<and> p \<noteq> 0)"
proof -
  let ?t = "Cprintf ''Stack backtrace:\<newline>'' []
      # concat (map (\<lambda>fp. snd (backtrace_frame e fp [])) fps)"
  have nz: "0 \<notin> set fps"
    using assms by (rule frame_chain_nonzero)
  have 1: "mon_backtrace e argc argv tf s = Some (0, s @ ?t)"
    by (rule mon_backtrace_chain_trace [OF assms])
  have 2: "filter (\<lambda>c. fst c \<noteq> CHR 0x09 # ''%s:%d: %.*s+%d\<newline>'') (console ?t)
        = (''Stack backtrace:\<newline>'', []) # concat (map (frame_line e) fps)"
    by (induction fps) (simp_all add: console_append backtrace_frame_console frame_line_def)
  have 3: "length (filter (\<lambda>c. fst c = ''  ebp %08x eip %08x '') (console ?t)) = length fps"
    by (induction fps) (simp_all add: console_append backtrace_frame_console frame_line_def)
  have 4: "loads ?t = concat (map frame_loads fps)"
    by (induction fps) (simp_all add: loads_append backtrace_frame_loads)
  have 5: "\<forall>(p, k) \<in> set (loads ?t). p \<in> set fps \<and> p \<noteq> 0"
    unfolding 4 using nz by (auto simp: frame_loads_def)
  from 1 2 3 4 5 show ?thesis
    by blast
qed

theorem mon_backtrace_chain_witness:
  "\<exists>t. mon_backtrace synthetic_env 1 [''backtrace''] () [] = Some (0, t)
    \<and> length (filter (\<lambda>c. fst c = ''  ebp %08x eip %08x '') (console t)) = 2
    \<and> loads t = [(0x2000, 1), (0x2000, 2), (0x2000, 3), (0x2000, 4), (0x2000, 5),
                  (0x2000, 6), (0x2000, 0), (0x3000, 1), (0x3000, 2), (0x3000, 3),
                  (0x3000, 4), (0x3000, 5), (0x3000, 6), (0x3000, 0)]"
  using mon_backtrace_chain [OF synthetic_chain, of 1 "[''backtrace'']" "()" "[]"]
  by (auto simp: frame_loads_def)

text \<open>
  C6. For every frame the unwinder visits, the output of the loop body is the frame
  line, followed by one more line exactly when \<open>debuginfo_eip\<close> returns 0 for the
  return address: that line has the file, the line, the length and the name of the
  function, and the return address minus the start of the function. When the lookup
  fails, nothing is added and the frame line is still there. On a chain, the output
  of \<open>backtrace\<close> is the header followed by these lines for each frame in order.
\<close>

theorem mon_backtrace_symbol_lines:
  "console (snd (backtrace_frame e fp s))
     = console s @ frame_line e fp @
        (let eip = memory e (fp + 4); (r, info) = debuginfo_eip e eip
         in if r = 0
            then [(CHR 0x09 # ''%s:%d: %.*s+%d\<newline>'',
                   [AStr (eip_file info), AInt (eip_line info), AInt (eip_fn_namelen info),
                    AStr (eip_fn_name info), AWord (eip - eip_fn_addr info)])]
            else [])
   \<and> (frame_chain (memory e) (read_ebp e) fps \<longrightarrow>
       (\<exists>t. mon_backtrace e argc argv tf s = Some (0, s @ t)
         \<and> console t = (''Stack backtrace:\<newline>'', []) #
             concat (map (\<lambda>fp. frame_line e fp @
               (let eip = memory e (fp + 4); (r, info) = debuginfo_eip e eip
                in if r = 0
                   then [(CHR 0x09 # ''%s:%d: %.*s+%d\<newline>'',
                          [AStr (eip_file info), AInt (eip_line info),
                           AInt (eip_fn_namelen info), AStr (eip_fn_name info),
                           AWord (eip - eip_fn_addr info)])]
                   else [])) fps)))"
proof (intro conjI impI)
  have "snd (backtrace_frame e fp s) = s @ snd (backtrace_frame e fp [])"
    using backtrace_frame_append [of e fp s] by simp
  then show "console (snd (backtrace_frame e fp s))
     = console s @ frame_line e fp @
        (let eip = memory e (fp + 4); (r, info) = debuginfo_eip e eip
         in if r = 0
            then [(CHR 0x09 # ''%s:%d: %.*s+%d\<newline>'',
                   [AStr (eip_file info), AInt (eip_line info), AInt (eip_fn_namelen info),
                    AStr (eip_fn_name info), AWord (eip - eip_fn_addr info)])]
            else [])"
    by (simp add: console_append backtrace_frame_console Let_def split: prod.splits)
next
  assume chain: "frame_chain (memory e) (read_ebp e) fps"
  let ?t = "Cprintf ''Stack backtrace:\<newline>'' []
      # concat (map (\<lambda>fp. snd (backtrace_frame e fp [])) fps)"
  have 1: "mon_backtrace e argc argv tf s = Some (0, s @ ?t)"
    by (rule mon_backtrace_chain_trace [OF chain])
  have 2: "console ?t = (''Stack backtrace:\<newline>'', []) #
        concat (map (\<lambda>fp. frame_line e fp @
          (let eip = memory e (fp + 4); (r, info) = debuginfo_eip e eip
           in if r = 0
              then [(CHR 0x09 # ''%s:%d: %.*s+%d\<newline>'',
                     [AStr (eip_file info), AInt (eip_line info), AInt (eip_fn_namelen info),
                      AStr (eip_fn_name info), AWord (eip - eip_fn_addr info)])]
              else [])) fps)"
    by (induction fps)
      (simp_all add: console_append backtrace_frame_console Let_def split: prod.splits)
  from 1 2 show "\<exists>t. mon_backtrace e argc argv tf s = Some (0, s @ t)
         \<and> console t = (''Stack backtrace:\<newline>'', []) #
             concat (map (\<lambda>fp. frame_line e fp @
               (let eip = memory e (fp + 4); (r, info) = debuginfo_eip e eip
                in if r = 0
                   then [(CHR 0x09 # ''%s:%d: %.*s+%d\<newline>'',
                          [AStr (eip_file info), AInt (eip_line info),
                           AInt (eip_fn_namelen info), AStr (eip_fn_name info),
                           AWord (eip - eip_fn_addr info)])]
                   else [])) fps)"
    by blast
qed

theorem mon_backtrace_symbol_lines_witness:
  "\<exists>t. mon_backtrace synthetic_env 1 [''backtrace''] () [] = Some (0, t)
    \<and> console t =
      [(''Stack backtrace:\<newline>'', []),
       (''  ebp %08x eip %08x '', [AWord 0x2000, AWord 0x100010]),
       (''args '', []),
       (''%08x '', [AWord 1]), (''%08x '', [AWord 0]), (''%08x '', [AWord 0]),
       (''%08x '', [AWord 0]), (''%08x '', [AWord 0]),
       (''\<newline>'', []),
       (CHR 0x09 # ''%s:%d: %.*s+%d\<newline>'',
        [AStr ''kern/init.c'', AInt 24, AInt 9, AStr ''i386_init'', AWord 0x10]),
       (''  ebp %08x eip %08x '', [AWord 0x3000, AWord 0x100020]),
       (''args '', []),
       (''%08x '', [AWord 0]), (''%08x '', [AWord 0]), (''%08x '', [AWord 0]),
       (''%08x '', [AWord 0]), (''%08x '', [AWord 0]),
       (''\<newline>'', [])]"
proof -
  have m: "memory synthetic_env 0x2004 = 0x100010" "memory synthetic_env 0x3004 = 0x100020"
    by (simp_all add: synthetic_env_def)
  have d: "debuginfo_eip synthetic_env 0x100010
      = (0, \<lparr>eip_file = ''kern/init.c'', eip_line = 24, eip_fn_name = ''i386_init'',
             eip_fn_namelen = 9, eip_fn_addr = 0x100000\<rparr>)"
    "debuginfo_eip synthetic_env 0x100020
      = (- 1, \<lparr>eip_file = ''<unknown>'', eip_line = 0, eip_fn_name = ''<unknown>'',
               eip_fn_namelen = 9, eip_fn_addr = 0x100020\<rparr>)"
    by (simp_all add: synthetic_env_def)
  have l: "frame_line synthetic_env 0x2000 =
      [(''  ebp %08x eip %08x '', [AWord 0x2000, AWord 0x100010]),
       (''args '', []),
       (''%08x '', [AWord 1]), (''%08x '', [AWord 0]), (''%08x '', [AWord 0]),
       (''%08x '', [AWord 0]), (''%08x '', [AWord 0]),
       (''\<newline>'', [])]"
    "frame_line synthetic_env 0x3000 =
      [(''  ebp %08x eip %08x '', [AWord 0x3000, AWord 0x100020]),
       (''args '', []),
       (''%08x '', [AWord 0]), (''%08x '', [AWord 0]), (''%08x '', [AWord 0]),
       (''%08x '', [AWord 0]), (''%08x '', [AWord 0]),
       (''\<newline>'', [])]"
    by (simp_all add: frame_line_def synthetic_env_def)
  from mon_backtrace_symbol_lines [where e = synthetic_env and fps = "[0x2000, 0x3000]"
      and argc = 1 and argv = "[''backtrace'']" and tf = "()" and s = "[]"] synthetic_chain
  show ?thesis
    by (auto simp: m d l Let_def split: prod.splits)
qed

subsection \<open>The mapping inspector: the loop over the pages\<close>

lemma showmappings_page_append:
  "showmappings_page e pgdir va s = s @ showmappings_page e pgdir va []"
  by (simp add: showmappings_page_def load_def Let_def)

lemma unat_PGSIZE: "unat PGSIZE = 4096"
  by (simp add: PGSIZE_def)

lemma unat_next_page:
  assumes "unat va + 4096 < 2 ^ 32"
  shows "unat (va + PGSIZE) = unat va + 4096"
proof -
  have "unat va + unat PGSIZE < 2 ^ LENGTH(32)"
    using assms by (simp add: unat_PGSIZE)
  then have "unat (va + PGSIZE) = unat va + unat PGSIZE"
    by (rule iffD1 [OF unat_add_lem])
  then show ?thesis
    by (simp add: unat_PGSIZE)
qed

lemma page_addrs_rec:
  assumes "va \<le> end_va" and "unat end_va + 4096 < 2 ^ 32"
  shows "page_addrs va end_va
      = va # (if va + PGSIZE \<le> end_va then page_addrs (va + PGSIZE) end_va else [])"
proof -
  from assms have le: "unat va \<le> unat end_va"
    by (simp add: word_le_nat_alt)
  with assms have nx: "unat (va + PGSIZE) = unat va + 4096"
    by (intro unat_next_page) simp
  show ?thesis
  proof (cases "va + PGSIZE \<le> end_va")
    case True
    then have ge: "unat va + 4096 \<le> unat end_va"
      using nx by (simp add: word_le_nat_alt)
    then have d: "(unat end_va - unat va) div 4096
        = Suc ((unat end_va - unat (va + PGSIZE)) div 4096)"
      using nx le_div_geq [of 4096 "unat end_va - unat va"] by simp
    have "map (\<lambda>k. va + of_nat k * PGSIZE) [0..<Suc (Suc n)]
        = va # map (\<lambda>k. va + PGSIZE + of_nat k * PGSIZE) [0..<Suc n]" for n
      by (simp add: upt_conv_Cons map_Suc_upt [symmetric] algebra_simps del: upt_Suc)
    with True d show ?thesis
      by (simp add: page_addrs_def unat_PGSIZE del: upt_Suc)
  next
    case False
    then have "unat end_va - unat va < 4096"
      using nx by (simp add: word_le_nat_alt)
    with False show ?thesis
      by (simp add: page_addrs_def unat_PGSIZE)
  qed
qed

lemma showmappings_loop_terminates:
  assumes "va \<le> end_va" and "unat end_va + 4096 < 2 ^ 32"
  shows "showmappings_loop e pgdir end_va va s
      = Some (foldl (\<lambda>s va. showmappings_page e pgdir va s) s (page_addrs va end_va))"
  using assms
proof (induction "unat end_va - unat va" arbitrary: va s rule: less_induct)
  case less
  from less.prems have le: "unat va \<le> unat end_va"
    by (simp add: word_le_nat_alt)
  with less.prems have nx: "unat (va + PGSIZE) = unat va + 4096"
    by (intro unat_next_page) simp
  show ?case
  proof (cases "va + PGSIZE \<le> end_va")
    case True
    then have "unat end_va - unat (va + PGSIZE) < unat end_va - unat va"
      using nx by (simp add: word_le_nat_alt)
    from less.hyps [OF this True less.prems(2)] True less.prems show ?thesis
      by (subst showmappings_loop.simps) (simp add: page_addrs_rec)
  next
    case False
    have "showmappings_loop e pgdir end_va (va + PGSIZE) s' = Some s'" for s'
      using False by (subst showmappings_loop.simps) simp
    with False less.prems show ?thesis
      by (subst showmappings_loop.simps) (simp add: page_addrs_rec)
  qed
qed

lemma unat_next_page_mod: "unat (va + PGSIZE) mod 4096 = unat va mod 4096"
proof -
  have "unat (va + PGSIZE) = (unat va + 4096) mod 2 ^ 32"
    by (simp add: unat_word_ariths unat_PGSIZE)
  moreover have "(4096 :: nat) dvd 2 ^ 32"
    by simp
  ultimately have "unat (va + PGSIZE) mod 4096 = (unat va + 4096) mod 4096"
    by (simp add: mod_mod_cancel)
  then show ?thesis
    by simp
qed

lemma unat_le_top_page: "unat (va :: u32) \<le> 2 ^ 32 - 4096 + unat va mod 4096"
proof -
  have "unat va < 2 ^ 32"
    using unsigned_less [of va, where 'a = nat] by simp
  then have "unat va div 4096 < 2 ^ 20"
    by (simp add: less_mult_imp_div_less)
  then have "4096 * (unat va div 4096) \<le> 2 ^ 32 - 4096"
    by simp
  moreover have "unat va = 4096 * (unat va div 4096) + unat va mod 4096"
    by simp
  ultimately show ?thesis
    by linarith
qed

lemma showmappings_loop_Some_bound:
  assumes "showmappings_loop e pgdir end_va va s = Some s'"
  shows "unat end_va < 2 ^ 32 - 4096 + unat va mod 4096"
  using assms
proof (induction e pgdir end_va va s s'
    rule: showmappings_loop.raw_induct [rotated 1, consumes 1])
  case (1 loop e pgdir end_va va s s')
  show ?case
  proof (cases "va \<le> end_va")
    case True
    with "1.hyps" have "loop e pgdir end_va (va + PGSIZE) (showmappings_page e pgdir va s)
        = Some s'"
      by simp
    from "1.IH" [OF this] show ?thesis
      by (simp add: unat_next_page_mod)
  next
    case False
    then have "unat end_va < unat va"
      by (simp add: word_le_nat_alt)
    with unat_le_top_page [of va] show ?thesis
      by linarith
  qed
qed

lemma showmappings_loop_diverges:
  assumes "2 ^ 32 - 4096 + unat va mod 4096 \<le> unat end_va"
  shows "showmappings_loop e pgdir end_va va s = None"
proof (cases "showmappings_loop e pgdir end_va va s")
  case None
  then show ?thesis .
next
  case (Some s')
  from showmappings_loop_Some_bound [OF this] assms show ?thesis
    by simp
qed

lemma foldl_pages:
  "foldl (\<lambda>s va. showmappings_page e pgdir va s) s vas
     = s @ concat (map (\<lambda>va. showmappings_page e pgdir va []) vas)"
proof (induction vas arbitrary: s)
  case Nil
  show ?case by simp
next
  case (Cons va vas)
  show ?case
    using showmappings_page_append [of e pgdir va s] by (simp add: Cons.IH)
qed

lemma console_pages:
  "map (\<lambda>c. hd (snd c)) (console (concat (map (\<lambda>va. showmappings_page e pgdir va []) vas)))
     = map AWord vas"
  by (induction vas) (simp_all add: console_append showmappings_page_console)

lemma unat_page_addr:
  assumes "unat begin_va + k * 4096 < 2 ^ 32"
  shows "unat (begin_va + of_nat k * PGSIZE) = unat begin_va + k * 4096"
proof -
  have k: "k * 4096 < 2 ^ 32"
    using assms by simp
  have "of_nat k * PGSIZE = (of_nat (k * 4096) :: u32)"
    by (simp add: PGSIZE_def)
  moreover have u: "unat (of_nat (k * 4096) :: u32) = k * 4096"
    using k unat_of_nat [of "k * 4096", where 'a = 32] by simp
  moreover have "unat begin_va + unat (of_nat (k * 4096) :: u32) < 2 ^ LENGTH(32)"
    using assms u by simp
  then have "unat (begin_va + of_nat (k * 4096)) = unat begin_va + unat (of_nat (k * 4096) :: u32)"
    by (rule iffD1 [OF unat_add_lem])
  ultimately show ?thesis
    by simp
qed

lemma page_addrs_unat:
  assumes "begin_va \<le> end_va" and "k \<le> (unat end_va - unat begin_va) div 4096"
  shows "unat (begin_va + of_nat k * PGSIZE) = unat begin_va + k * 4096"
    and "unat begin_va + k * 4096 \<le> unat end_va"
proof -
  from assms(1) have le: "unat begin_va \<le> unat end_va"
    by (simp add: word_le_nat_alt)
  have "k * 4096 \<le> ((unat end_va - unat begin_va) div 4096) * 4096"
    using assms(2) by simp
  also have "\<dots> \<le> unat end_va - unat begin_va"
    by simp
  finally show b: "unat begin_va + k * 4096 \<le> unat end_va"
    using le by simp
  have "unat end_va < 2 ^ 32"
    using unsigned_less [of end_va, where 'a = nat] by simp
  with b have "unat begin_va + k * 4096 < 2 ^ 32"
    by simp
  then show "unat (begin_va + of_nat k * PGSIZE) = unat begin_va + k * 4096"
    by (rule unat_page_addr)
qed

lemma page_addrs_sorted:
  assumes "begin_va \<le> end_va"
  shows "sorted_wrt (<) (page_addrs begin_va end_va)"
proof -
  let ?n = "(unat end_va - unat begin_va) div 4096"
  have "begin_va + of_nat i * PGSIZE < begin_va + of_nat j * PGSIZE"
    if "i < j" and "j < Suc ?n" for i j
  proof -
    from that have "i \<le> ?n" "j \<le> ?n"
      by simp_all
    then show ?thesis
      using that(1) by (simp add: word_less_nat_alt page_addrs_unat [OF assms])
  qed
  then show ?thesis
    unfolding page_addrs_def unat_PGSIZE
    by (simp add: sorted_wrt_iff_nth_less del: upt_Suc)
qed

lemma page_addrs_image:
  "set (page_addrs begin_va end_va)
     = (\<lambda>k. begin_va + of_nat k * PGSIZE) ` {0..<Suc ((unat end_va - unat begin_va) div 4096)}"
  unfolding page_addrs_def unat_PGSIZE set_map set_upt ..

lemma page_addrs_set:
  assumes "begin_va \<le> end_va"
  shows "set (page_addrs begin_va end_va)
      = {va. begin_va \<le> va \<and> va \<le> end_va \<and> (unat va - unat begin_va) mod unat PGSIZE = 0}"
proof (intro set_eqI iffI)
  fix va
  let ?n = "(unat end_va - unat begin_va) div 4096"
  assume "va \<in> set (page_addrs begin_va end_va)"
  then have "va \<in> (\<lambda>k. begin_va + of_nat k * PGSIZE) ` {0..<Suc ?n}"
    unfolding page_addrs_image .
  then obtain k where "k < Suc ?n" and va: "va = begin_va + of_nat k * PGSIZE"
    by (elim imageE) simp
  then have k: "k \<le> ?n"
    by simp
  have u: "unat va = unat begin_va + k * 4096"
    unfolding va by (rule page_addrs_unat(1) [OF assms k])
  have b: "unat begin_va + k * 4096 \<le> unat end_va"
    by (rule page_addrs_unat(2) [OF assms k])
  have "begin_va \<le> va \<and> va \<le> end_va \<and> (unat va - unat begin_va) mod unat PGSIZE = 0"
    unfolding word_le_nat_alt unat_PGSIZE u using b by simp
  then show "va \<in> {va. begin_va \<le> va \<and> va \<le> end_va
      \<and> (unat va - unat begin_va) mod unat PGSIZE = 0}"
    by (rule CollectI)
next
  fix va
  let ?n = "(unat end_va - unat begin_va) div 4096"
  assume "va \<in> {va. begin_va \<le> va \<and> va \<le> end_va
      \<and> (unat va - unat begin_va) mod unat PGSIZE = 0}"
  then have "begin_va \<le> va \<and> va \<le> end_va \<and> (unat va - unat begin_va) mod unat PGSIZE = 0"
    by (rule CollectD)
  then have b: "unat begin_va \<le> unat va" and e: "unat va \<le> unat end_va"
    and m: "(unat va - unat begin_va) mod 4096 = 0"
    unfolding word_le_nat_alt unat_PGSIZE by simp_all
  let ?k = "(unat va - unat begin_va) div 4096"
  have k: "?k \<le> ?n"
    using e by (intro div_le_mono) simp
  have "?k * 4096 = unat va - unat begin_va"
    using m by (simp add: mod_eq_0_iff_dvd)
  with page_addrs_unat(1) [OF assms k] b
  have "unat (begin_va + of_nat ?k * PGSIZE) = unat va"
    by simp
  then have "va = begin_va + of_nat ?k * PGSIZE"
    by (rule word_unat_eq_iff [THEN iffD2, symmetric])
  moreover from k have "?k \<in> {0..<Suc ?n}"
    by simp
  ultimately have "va \<in> (\<lambda>k. begin_va + of_nat k * PGSIZE) ` {0..<Suc ?n}"
    by (rule image_eqI)
  then show "va \<in> set (page_addrs begin_va end_va)"
    unfolding page_addrs_image .
qed

lemma page_addrs_single: "page_addrs va va = [va]"
  by (simp add: page_addrs_def)

lemma synthetic_strtol:
  "(word_of_int (strtol synthetic_env ''0x1000'' 0) :: u32) = 0x1000"
  "(word_of_int (strtol synthetic_env ''0x1001'' 0) :: u32) = 0x1001"
  "(word_of_int (strtol synthetic_env ''0x3000'' 0) :: u32) = 0x3000"
  "(word_of_int (strtol synthetic_env ''0xfffff000'' 0) :: u32) = 0xfffff000"
  "(word_of_int (strtol synthetic_env ''0xffffffff'' 0) :: u32) = 0xffffffff"
  by (simp_all add: synthetic_env_def)

lemma synthetic_pgdir: "KADDR synthetic_env (rcr3 synthetic_env) = 0xF0110000"
  by (simp add: synthetic_env_def)

lemma synthetic_pages:
  "showmappings_page synthetic_env 0xF0110000 0x1001 s
     = s @ [Load 0x5004 0, Load 0x5004 0, Load 0x5004 0, Load 0x5004 0, Load 0x5004 0,
            Cprintf ''va 0x%x: 0x%x PTE_P %d PTE_W %d PTE_U %d\<newline>''
              [AWord 0x1001, AWord 0x123000, AWord 1, AWord 2, AWord 4]]"
  "showmappings_page synthetic_env 0xF0110000 0x2001 s
     = s @ [Load 0x5008 0, Cprintf ''va 0x%x is not mapped\<newline>'' [AWord 0x2001]]"
  by (simp_all add: showmappings_page_def load_def synthetic_env_def Let_def
      PTE_P_def PTE_W_def PTE_U_def PTE_ADDR_def drop_bit_eq_div)

text \<open>
  C1, as the code has it. For an invocation with three tokens whose parsed addresses
  satisfy \<open>begin \<le> end\<close>, with \<open>end\<close> below \<open>2^32 - PGSIZE\<close>, \<open>showmappings\<close> returns 0
  after inspecting, one line each and in ascending order, exactly the addresses
  \<open>begin\<close>, \<open>begin + PGSIZE\<close>, ... that do not exceed \<open>end\<close>: the addresses between
  \<open>begin\<close> and \<open>end\<close> at a multiple of the page size from \<open>begin\<close> (page-aligned when \<open>begin\<close>
  is). When \<open>begin\<close> equals \<open>end\<close> exactly one page is inspected.
\<close>

theorem mon_showmappings_visits:
  assumes "argc = 3"
    and "begin_va = word_of_int (strtol e (argv ! 1) 0)"
    and "end_va = word_of_int (strtol e (argv ! 2) 0)"
    and "begin_va \<le> end_va"
    and "unat end_va < 2 ^ 32 - unat PGSIZE"
  shows "\<exists>t. mon_showmappings e argc argv tf s = Some (0, s @ t)
    \<and> t = concat (map (\<lambda>va. showmappings_page e (KADDR e (rcr3 e)) va [])
                      (page_addrs begin_va end_va))
    \<and> map (\<lambda>c. hd (snd c)) (console t) = map AWord (page_addrs begin_va end_va)
    \<and> sorted_wrt (<) (page_addrs begin_va end_va)
    \<and> set (page_addrs begin_va end_va)
        = {va. begin_va \<le> va \<and> va \<le> end_va
               \<and> (unat va - unat begin_va) mod unat PGSIZE = 0}
    \<and> (begin_va = end_va \<longrightarrow> page_addrs begin_va end_va = [begin_va])"
proof -
  let ?t = "concat (map (\<lambda>va. showmappings_page e (KADDR e (rcr3 e)) va [])
                      (page_addrs begin_va end_va))"
  from assms(5) have top: "unat end_va + 4096 < 2 ^ 32"
    by (simp add: unat_PGSIZE)
  have n: "\<not> end_va < begin_va"
    using assms(4) by simp
  have l: "showmappings_loop e (KADDR e (rcr3 e)) end_va begin_va s = Some (s @ ?t)"
    by (simp add: showmappings_loop_terminates [OF assms(4) top] foldl_pages)
  have 1: "mon_showmappings e argc argv tf s = Some (0, s @ ?t)"
    using n l unfolding assms(1,2,3) by (simp add: mon_showmappings_3)
  have 2: "map (\<lambda>c. hd (snd c)) (console ?t) = map AWord (page_addrs begin_va end_va)"
    by (rule console_pages)
  from 1 2 page_addrs_sorted [OF assms(4)] page_addrs_set [OF assms(4)] page_addrs_single
  show ?thesis
    by blast
qed

theorem mon_showmappings_visits_witness:
  "\<exists>t. mon_showmappings synthetic_env 3 [''showmappings'', ''0x1000'', ''0x3000''] () []
         = Some (0, t)
    \<and> map (\<lambda>c. hd (snd c)) (console t) = [AWord 0x1000, AWord 0x2000, AWord 0x3000]"
proof -
  have p: "page_addrs 0x1000 0x3000 = [0x1000, 0x2000, 0x3000]"
    by (simp add: page_addrs_def PGSIZE_def upt_rec)
  from mon_showmappings_visits [where e = synthetic_env and argc = 3
      and argv = "[''showmappings'', ''0x1000'', ''0x3000'']" and begin_va = "0x1000"
      and end_va = "0x3000" and tf = "()" and s = "[]"]
  show ?thesis
    by (auto simp: synthetic_strtol p PGSIZE_def)
qed

text \<open>
  With \<open>begin = 0x1001\<close> and \<open>end = 0x3000\<close> the inspector visits \<open>0x1001\<close> and \<open>0x2001\<close>:
  neither is page-aligned, and the page-aligned addresses \<open>0x2000\<close> and \<open>0x3000\<close> of the
  range are not visited.
\<close>

theorem mon_showmappings_unaligned_counterexample:
  "mon_showmappings synthetic_env 3 [''showmappings'', ''0x1001'', ''0x3000''] () []
     = Some (0,
        [Load 0x5004 0, Load 0x5004 0, Load 0x5004 0, Load 0x5004 0, Load 0x5004 0,
         Cprintf ''va 0x%x: 0x%x PTE_P %d PTE_W %d PTE_U %d\<newline>''
           [AWord 0x1001, AWord 0x123000, AWord 1, AWord 2, AWord 4],
         Load 0x5008 0,
         Cprintf ''va 0x%x is not mapped\<newline>'' [AWord 0x2001]])"
proof -
  have 3: "showmappings_loop synthetic_env 0xF0110000 0x3000 0x3001 s = Some s" for s
    by (subst showmappings_loop.simps) (simp add: PGSIZE_def)
  have 2: "showmappings_loop synthetic_env 0xF0110000 0x3000 0x2001 s
      = Some (showmappings_page synthetic_env 0xF0110000 0x2001 s)" for s
    by (subst showmappings_loop.simps) (simp add: PGSIZE_def 3)
  have 1: "showmappings_loop synthetic_env 0xF0110000 0x3000 0x1001 s
      = Some (showmappings_page synthetic_env 0xF0110000 0x2001
               (showmappings_page synthetic_env 0xF0110000 0x1001 s))" for s
    by (subst showmappings_loop.simps) (simp add: PGSIZE_def 2)
  show ?thesis
    by (simp add: mon_showmappings_3 synthetic_strtol synthetic_pgdir 1 synthetic_pages)
qed

text \<open>
  C10. The loop over the pages returns for every \<open>begin \<le> end\<close> with \<open>end\<close> below
  \<open>2^32 - PGSIZE\<close>. With \<open>begin = 0xfffff000\<close> and \<open>end = 0xffffffff\<close>, which the handler
  accepts, no iterate exceeds \<open>end\<close>, the loop never returns, and neither does the
  handler.
\<close>

theorem showmappings_loop_termination:
  "(begin_va \<le> end_va \<and> unat end_va < 2 ^ 32 - unat PGSIZE \<longrightarrow>
      (\<exists>s'. showmappings_loop e pgdir end_va begin_va s = Some s'))
   \<and> (\<forall>k. (0xfffff000 :: u32) + of_nat k * PGSIZE \<le> 0xffffffff)
   \<and> showmappings_loop e pgdir 0xffffffff 0xfffff000 s = None
   \<and> (argc = 3 \<and> (word_of_int (strtol e (argv ! 1) 0) :: u32) = 0xfffff000
        \<and> (word_of_int (strtol e (argv ! 2) 0) :: u32) = 0xffffffff \<longrightarrow>
      mon_showmappings e argc argv tf s = None)"
proof (intro conjI impI allI)
  assume "begin_va \<le> end_va \<and> unat end_va < 2 ^ 32 - unat PGSIZE"
  then have "begin_va \<le> end_va" and "unat end_va + 4096 < 2 ^ 32"
    by (simp_all add: unat_PGSIZE)
  from showmappings_loop_terminates [OF this]
  show "\<exists>s'. showmappings_loop e pgdir end_va begin_va s = Some s'"
    by blast
next
  fix k
  show "(0xfffff000 :: u32) + of_nat k * PGSIZE \<le> 0xffffffff"
  proof -
    have "(0xffffffff :: u32) = - 1"
      by simp
    then show ?thesis
      by (simp only: word_n1_ge)
  qed
next
  have d: "showmappings_loop e pgdir 0xffffffff 0xfffff000 s' = None" for s'
    by (rule showmappings_loop_diverges) simp
  show "showmappings_loop e pgdir 0xffffffff 0xfffff000 s = None"
    by (rule d)
  assume "argc = 3 \<and> (word_of_int (strtol e (argv ! 1) 0) :: u32) = 0xfffff000
        \<and> (word_of_int (strtol e (argv ! 2) 0) :: u32) = 0xffffffff"
  then show "mon_showmappings e argc argv tf s = None"
    by (simp add: mon_showmappings_3 showmappings_loop_diverges)
qed

theorem showmappings_loop_termination_witness:
  "(\<exists>s'. showmappings_loop synthetic_env 0xF0110000 0x3000 0x1000 [] = Some s')
   \<and> mon_showmappings synthetic_env 3 [''showmappings'', ''0xfffff000'', ''0xffffffff''] () []
       = None"
  using showmappings_loop_termination [where begin_va = "0x1000" and end_va = "0x3000"
      and e = synthetic_env and pgdir = "0xF0110000" and s = "[]" and argc = 3
      and argv = "[''showmappings'', ''0xfffff000'', ''0xffffffff'']" and tf = "()"]
  by (simp add: synthetic_strtol PGSIZE_def)

subsection \<open>The tokenizer\<close>

lemma NUL_not_space: "NUL \<notin> set WHITESPACE"
  by (simp add: NUL_def WHITESPACE_def)

lemma peek_append: "peek (pre @ r) (length pre) = (case r of [] \<Rightarrow> NUL | c # _ \<Rightarrow> c)"
  by (cases r) (simp_all add: peek_def)

lemma gobble_whitespace_run:
  assumes "\<forall>c \<in> set w. c \<in> set WHITESPACE" and "r = [] \<or> hd r \<notin> set WHITESPACE"
  shows "gobble_whitespace (pre @ w @ r) (length pre)
      = (pre @ replicate (length w) NUL @ r, length pre + length w)"
  using assms(1)
proof (induction w arbitrary: pre)
  case Nil
  from assms(2) show ?case
    by (subst gobble_whitespace.simps) (auto simp: peek_append split: list.splits)
next
  case (Cons c w)
  from Cons.prems have c: "c \<in> set WHITESPACE" "c \<noteq> NUL"
    using NUL_not_space by auto
  from Cons.prems have w: "\<forall>c \<in> set w. c \<in> set WHITESPACE"
    by simp
  have "gobble_whitespace (pre @ (c # w) @ r) (length pre)
      = gobble_whitespace ((pre @ [NUL]) @ w @ r) (length (pre @ [NUL]))"
    using c by (subst gobble_whitespace.simps) (simp add: peek_append)
  also have "\<dots> = ((pre @ [NUL]) @ replicate (length w) NUL @ r,
      length (pre @ [NUL]) + length w)"
    by (rule Cons.IH [OF w])
  finally show ?case
    by simp
qed

lemma scan_arg_run:
  assumes "\<forall>c \<in> set t. c \<noteq> NUL \<and> c \<notin> set WHITESPACE"
    and "r = [] \<or> hd r \<in> set WHITESPACE"
  shows "scan_arg (pre @ t @ r) (length pre) = length pre + length t"
  using assms(1)
proof (induction t arbitrary: pre)
  case Nil
  from assms(2) show ?case
    by (subst scan_arg.simps) (auto simp: peek_append split: list.splits)
next
  case (Cons c t)
  from Cons.prems have t: "\<forall>c \<in> set t. c \<noteq> NUL \<and> c \<notin> set WHITESPACE"
    by simp
  have "scan_arg (pre @ (c # t) @ r) (length pre)
      = scan_arg ((pre @ [c]) @ t @ r) (length (pre @ [c]))"
    using Cons.prems by (subst scan_arg.simps) (simp add: peek_append)
  also have "\<dots> = length (pre @ [c]) + length t"
    by (rule Cons.IH [OF t])
  finally show ?case
    by simp
qed

lemma tokens_none:
  assumes "dropWhile (\<lambda>c. c \<in> set WHITESPACE) r = []"
  shows "tokens r = []"
  by (subst tokens.simps, subst assms) simp

lemma tokens_next:
  assumes "dropWhile (\<lambda>c. c \<in> set WHITESPACE) r = r1" and "r1 \<noteq> []"
  shows "tokens r = takeWhile (\<lambda>c. c \<notin> set WHITESPACE) r1
      # tokens (dropWhile (\<lambda>c. c \<notin> set WHITESPACE) r1)"
  using assms by (subst tokens.simps) (simp split: list.splits)

lemma tokens_no_space:
  "t \<in> set (tokens s) \<Longrightarrow> t \<noteq> [] \<and> (\<forall>c \<in> set t. c \<notin> set WHITESPACE)"
proof (induction s rule: tokens.induct)
  case (1 s)
  show ?case
  proof (cases "dropWhile (\<lambda>c. c \<in> set WHITESPACE) s")
    case Nil
    then have "tokens s = []"
      by (rule tokens_none)
    with "1.prems" show ?thesis
      by simp
  next
    case (Cons c r)
    then have tk: "tokens s = takeWhile (\<lambda>c. c \<notin> set WHITESPACE) (c # r)
        # tokens (dropWhile (\<lambda>c. c \<notin> set WHITESPACE) (c # r))"
      by (intro tokens_next) simp_all
    have c: "c \<notin> set WHITESPACE"
      using Cons hd_dropWhile [of "\<lambda>c. c \<in> set WHITESPACE" s] by auto
    from "1.prems" tk consider "t = takeWhile (\<lambda>c. c \<notin> set WHITESPACE) (c # r)"
      | "t \<in> set (tokens (dropWhile (\<lambda>c. c \<notin> set WHITESPACE) (c # r)))"
      by auto
    then show ?thesis
    proof cases
      case 1
      then show ?thesis
        using c by (auto dest: set_takeWhileD)
    next
      case 2
      from "1.IH" [OF Cons this] show ?thesis .
    qed
  qed
qed

lemma concat_tokens: "concat (tokens s) = filter (\<lambda>c. c \<notin> set WHITESPACE) s"
proof (induction s rule: tokens.induct)
  case (1 s)
  let ?ws = "\<lambda>c. c \<in> set WHITESPACE"
  let ?nws = "\<lambda>c. c \<notin> set WHITESPACE"
  have s: "s = takeWhile ?ws s @ dropWhile ?ws s"
    by simp
  have f: "filter ?nws (takeWhile ?ws s) = []"
    by (auto simp: filter_empty_conv dest: set_takeWhileD)
  show ?case
  proof (cases "dropWhile ?ws s")
    case Nil
    then have "tokens s = []"
      by (rule tokens_none)
    moreover have "filter ?nws s = filter ?nws (takeWhile ?ws s) @ filter ?nws (dropWhile ?ws s)"
      by (subst s) (simp only: filter_append)
    ultimately show ?thesis
      using Nil f by simp
  next
    case (Cons c r)
    then have tk: "tokens s = takeWhile ?nws (c # r) # tokens (dropWhile ?nws (c # r))"
      by (intro tokens_next) simp_all
    have "filter ?nws s = filter ?nws (takeWhile ?ws s) @ filter ?nws (dropWhile ?ws s)"
      by (subst s) (simp only: filter_append)
    also have "\<dots> = filter ?nws (c # r)"
      using f Cons by simp
    also have "c # r = takeWhile ?nws (c # r) @ dropWhile ?nws (c # r)"
      by simp
    also have "filter ?nws \<dots> = takeWhile ?nws (c # r) @ filter ?nws (dropWhile ?nws (c # r))"
      by (simp only: filter_append) (simp add: filter_id_conv del: takeWhile.simps dropWhile.simps, auto dest: set_takeWhileD)
    finally show ?thesis
      using "1.IH" [OF Cons] tk by simp
  qed
qed

lemma cstr_token:
  assumes "\<forall>c \<in> set t. c \<noteq> NUL" and "b = [] \<or> hd b = NUL"
  shows "cstr (pre @ t @ b) (length pre) = t"
  using assms by (cases b) (simp_all add: cstr_def)


lemma zero_whitespace_append:
  "zero_whitespace (xs @ ys) = zero_whitespace xs @ zero_whitespace ys"
  by (simp add: zero_whitespace_def)

lemma zero_whitespace_spaces:
  "\<forall>c \<in> set w. c \<in> set WHITESPACE \<Longrightarrow> zero_whitespace w = replicate (length w) NUL"
  by (induction w) (simp_all add: zero_whitespace_def)

lemma zero_whitespace_token:
  "\<forall>c \<in> set t. c \<notin> set WHITESPACE \<Longrightarrow> zero_whitespace t = t"
  by (induction t) (simp_all add: zero_whitespace_def)

lemma parse_args_main:
  assumes "NUL \<notin> set r" and "length argv \<le> 15"
  shows "\<exists>b' ps.
      parse_args (pre @ r) (length pre) argv
        = (if length (tokens r) \<le> 15 - length argv
           then Parsed (pre @ b') (argv @ ps) else TooMany (pre @ b') (argv @ ps))
      \<and> length b' = length r
      \<and> map (cstr (pre @ b')) ps = take (15 - length argv) (tokens r)
      \<and> (r \<noteq> [] \<and> hd r \<in> set WHITESPACE \<longrightarrow> hd b' = NUL)
      \<and> (length (tokens r) \<le> 15 - length argv \<longrightarrow> b' = zero_whitespace r)"
  using assms
proof (induction "length r" arbitrary: r pre argv rule: less_induct)
  case less
  let ?ws = "\<lambda>c. c \<in> set WHITESPACE"
  let ?nws = "\<lambda>c. c \<notin> set WHITESPACE"
  define w where "w = takeWhile ?ws r"
  define r1 where "r1 = dropWhile ?ws r"
  define N where "N = replicate (length w) NUL"
  have r: "r = w @ r1"
    by (simp add: w_def r1_def)
  have w: "\<forall>c \<in> set w. c \<in> set WHITESPACE"
    unfolding w_def by (auto dest: set_takeWhileD)
  have r1: "r1 = [] \<or> hd r1 \<notin> set WHITESPACE"
    unfolding r1_def using hd_dropWhile [of ?ws r] by auto
  have g: "gobble_whitespace (pre @ r) (length pre) = (pre @ N @ r1, length pre + length w)"
    unfolding r N_def by (rule gobble_whitespace_run [OF w r1])
  have hdN: "r \<noteq> [] \<and> hd r \<in> set WHITESPACE \<longrightarrow> hd (N @ x) = NUL" for x
  proof
    assume a: "r \<noteq> [] \<and> hd r \<in> set WHITESPACE"
    then have "w \<noteq> []"
      unfolding w_def by (cases r) auto
    then show "hd (N @ x) = NUL"
      unfolding N_def by (cases w) auto
  qed
  show ?case
  proof (cases "r1 = []")
    case True
    have t: "tokens r = []"
      using True unfolding r1_def by (rule tokens_none)
    have pk0: "peek (pre @ N) (length pre + length w) = NUL"
      using peek_append [of "pre @ N" "[]"] by (simp add: N_def)
    have p: "parse_args (pre @ r) (length pre) argv = Parsed (pre @ N) argv"
      using True by (subst parse_args.simps) (simp add: g pk0)
    have z: "zero_whitespace r = N"
      using True w unfolding r N_def by (simp add: zero_whitespace_spaces)
    have "parse_args (pre @ r) (length pre) argv
        = (if length (tokens r) \<le> 15 - length argv
           then Parsed (pre @ N) (argv @ []) else TooMany (pre @ N) (argv @ []))
      \<and> length N = length r
      \<and> map (cstr (pre @ N)) [] = take (15 - length argv) (tokens r)
      \<and> (r \<noteq> [] \<and> hd r \<in> set WHITESPACE \<longrightarrow> hd N = NUL)
      \<and> (length (tokens r) \<le> 15 - length argv \<longrightarrow> N = zero_whitespace r)"
      using p t z hdN [of "[]"] True by (simp add: r N_def)
    then show ?thesis
      by blast
  next
    case False
    define t where "t = takeWhile ?nws r1"
    define r2 where "r2 = dropWhile ?nws r1"
    have r1': "r1 = t @ r2"
      by (simp add: t_def r2_def)
    from False r1 have "hd r1 \<notin> set WHITESPACE"
      by simp
    with False have tne: "t \<noteq> []"
      unfolding t_def by (cases r1) auto
    have nul: "NUL \<notin> set r1"
      using less.prems(1) unfolding r1_def by (auto dest: set_dropWhileD)
    have t: "\<forall>c \<in> set t. c \<noteq> NUL \<and> c \<notin> set WHITESPACE"
      using nul unfolding t_def by (auto dest: set_takeWhileD)
    have r2: "r2 = [] \<or> hd r2 \<in> set WHITESPACE"
      unfolding r2_def using hd_dropWhile [of ?nws r1] by auto
    have nul2: "NUL \<notin> set r2"
      using nul unfolding r2_def by (auto dest: set_dropWhileD)
    have tk: "tokens r = t # tokens r2"
      unfolding t_def r2_def by (rule tokens_next [OF r1_def [symmetric] False])
    have pk: "peek (pre @ N @ r1) (length pre + length w) = hd t"
      using peek_append [of "pre @ N" "t @ r2"] tne
      by (cases t) (simp_all add: r1' N_def)
    have hdt: "hd t \<noteq> NUL"
      using t tne by (cases t) auto
    show ?thesis
    proof (cases "length argv = 15")
      case True
      have p: "parse_args (pre @ r) (length pre) argv = TooMany (pre @ N @ r1) argv"
        using True hdt by (subst parse_args.simps) (simp add: g pk MAXARGS_def)
      have "parse_args (pre @ r) (length pre) argv
          = (if length (tokens r) \<le> 15 - length argv
             then Parsed (pre @ N @ r1) (argv @ []) else TooMany (pre @ N @ r1) (argv @ []))
        \<and> length (N @ r1) = length r
        \<and> map (cstr (pre @ N @ r1)) [] = take (15 - length argv) (tokens r)
        \<and> (r \<noteq> [] \<and> hd r \<in> set WHITESPACE \<longrightarrow> hd (N @ r1) = NUL)
        \<and> (length (tokens r) \<le> 15 - length argv \<longrightarrow> N @ r1 = zero_whitespace r)"
        using p tk True hdN [of r1] by (simp add: r N_def)
      then show ?thesis
        by blast
    next
      case F15: False
      with less.prems(2) have lt: "length argv < 15"
        by simp
      let ?pre = "pre @ N @ t"
      let ?argv = "argv @ [length pre + length w]"
      have sc: "scan_arg (pre @ N @ r1) (length pre + length w) = length ?pre"
        using scan_arg_run [OF t r2, of "pre @ N"] by (simp add: r1' N_def)
      have p0: "parse_args (pre @ r) (length pre) argv
          = parse_args (pre @ N @ r1) (length ?pre) ?argv"
        using F15 hdt by (subst parse_args.simps) (simp add: g pk sc MAXARGS_def)
      have p: "parse_args (pre @ r) (length pre) argv
          = parse_args (?pre @ r2) (length ?pre) ?argv"
        unfolding p0 by (simp add: r1')
      have "length r2 < length r"
        using tne by (simp add: r r1')
      from less.hyps [OF this nul2, of ?argv ?pre] lt
      obtain b'' ps'' where ih:
        "parse_args (?pre @ r2) (length ?pre) ?argv
          = (if length (tokens r2) \<le> 14 - length argv
             then Parsed (?pre @ b'') (?argv @ ps'') else TooMany (?pre @ b'') (?argv @ ps''))"
        "length b'' = length r2"
        "map (cstr (?pre @ b'')) ps'' = take (14 - length argv) (tokens r2)"
        "r2 \<noteq> [] \<and> hd r2 \<in> set WHITESPACE \<longrightarrow> hd b'' = NUL"
        "length (tokens r2) \<le> 14 - length argv \<longrightarrow> b'' = zero_whitespace r2"
        by auto
      have b'': "b'' = [] \<or> hd b'' = NUL"
        using r2 ih(2,4) by auto
      have "\<forall>c \<in> set t. c \<noteq> NUL"
        using t by simp
      from cstr_token [OF this b'', of "pre @ N"]
      have c1: "cstr (pre @ N @ t @ b'') (length pre + length w) = t"
        by (simp add: N_def)
      have tz: "zero_whitespace t = t"
        using t by (simp add: zero_whitespace_token)
      have wz: "zero_whitespace w = N"
        using w unfolding N_def by (rule zero_whitespace_spaces)
      have "parse_args (pre @ r) (length pre) argv
          = (if length (tokens r) \<le> 15 - length argv
             then Parsed (pre @ N @ t @ b'') (argv @ (length pre + length w) # ps'')
             else TooMany (pre @ N @ t @ b'') (argv @ (length pre + length w) # ps''))
        \<and> length (N @ t @ b'') = length r
        \<and> map (cstr (pre @ N @ t @ b'')) ((length pre + length w) # ps'')
            = take (15 - length argv) (tokens r)
        \<and> (r \<noteq> [] \<and> hd r \<in> set WHITESPACE \<longrightarrow> hd (N @ t @ b'') = NUL)
        \<and> (length (tokens r) \<le> 15 - length argv \<longrightarrow> N @ t @ b'' = zero_whitespace r)"
      proof (intro conjI)
        show "parse_args (pre @ r) (length pre) argv
          = (if length (tokens r) \<le> 15 - length argv
             then Parsed (pre @ N @ t @ b'') (argv @ (length pre + length w) # ps'')
             else TooMany (pre @ N @ t @ b'') (argv @ (length pre + length w) # ps''))"
          using p ih(1) lt by (simp add: tk) linarith
        show "length (N @ t @ b'') = length r"
          using ih(2) by (simp add: r r1' N_def)
        have "15 - length argv = Suc (14 - length argv)"
          using lt by simp
        then have "take (15 - length argv) (t # tokens r2)
            = t # take (14 - length argv) (tokens r2)"
          by simp
        then show "map (cstr (pre @ N @ t @ b'')) ((length pre + length w) # ps'')
            = take (15 - length argv) (tokens r)"
          using c1 ih(3) by (simp add: tk)
        show "r \<noteq> [] \<and> hd r \<in> set WHITESPACE \<longrightarrow> hd (N @ t @ b'') = NUL"
          by (rule hdN)
        show "length (tokens r) \<le> 15 - length argv \<longrightarrow> N @ t @ b'' = zero_whitespace r"
        proof
          assume "length (tokens r) \<le> 15 - length argv"
          then have "length (tokens r2) \<le> 14 - length argv"
            using lt by (simp add: tk)
          with ih(5) have "b'' = zero_whitespace r2"
            by simp
          then show "N @ t @ b'' = zero_whitespace r"
            unfolding r r1' by (simp add: zero_whitespace_append tz wz)
        qed
      qed
      then show ?thesis
        by blast
    qed
  qed
qed

lemma parse_args_line:
  assumes "NUL \<notin> set line"
  shows "\<exists>b ps.
      parse_args line 0 []
        = (if length (tokens line) \<le> 15 then Parsed b ps else TooMany b ps)
      \<and> map (cstr b) ps = take 15 (tokens line)
      \<and> (length (tokens line) \<le> 15 \<longrightarrow> b = zero_whitespace line)"
proof -
  have "length ([] :: nat list) \<le> 15"
    by simp
  from parse_args_main [OF assms this, of "[]"] show ?thesis
    by (simp cong: if_cong split del: if_split) blast
qed

text \<open>
  C8, as the code has it. A line is a C string, so it holds no NUL. When it has at most
  \<open>MAXARGS - 1\<close> maximal runs of non-whitespace characters, the parsing loop ends
  normally, the buffer is then the line with every whitespace character zeroed, and
  the saved pointers point, in order, to exactly those runs as C strings. A line of
  whitespace only, the empty line included, has no token and is parsed without error.
  The line \<open>showmappings 0x1000 0x3000\<close> yields three pointers, to those three
  substrings.
\<close>

theorem tokenizer_tokens:
  "(NUL \<notin> set line \<and> length (tokens line) \<le> MAXARGS - 1 \<longrightarrow>
      (\<exists>argv. parse_args line 0 [] = Parsed (zero_whitespace line) argv
         \<and> map (cstr (zero_whitespace line)) argv = tokens line))
   \<and> ((\<forall>c \<in> set line. c \<in> set WHITESPACE) \<longrightarrow>
        tokens line = [] \<and> parse_args line 0 [] = Parsed (zero_whitespace line) [])
   \<and> parse_args ''showmappings 0x1000 0x3000'' 0 []
       = Parsed (zero_whitespace ''showmappings 0x1000 0x3000'') [0, 13, 20]
   \<and> map (cstr (zero_whitespace ''showmappings 0x1000 0x3000'')) [0, 13, 20]
       = [''showmappings'', ''0x1000'', ''0x3000'']"
proof (intro conjI impI)
  assume a: "NUL \<notin> set line \<and> length (tokens line) \<le> MAXARGS - 1"
  then have "NUL \<notin> set line" and l: "length (tokens line) \<le> 15"
    by (simp_all add: MAXARGS_def)
  from parse_args_line [OF this(1)] l
  show "\<exists>argv. parse_args line 0 [] = Parsed (zero_whitespace line) argv
         \<and> map (cstr (zero_whitespace line)) argv = tokens line"
    by auto
next
  assume a: "\<forall>c \<in> set line. c \<in> set WHITESPACE"
  then have n: "NUL \<notin> set line"
    using NUL_not_space by auto
  from a have "dropWhile (\<lambda>c. c \<in> set WHITESPACE) line = []"
    by simp
  then show t: "tokens line = []"
    by (rule tokens_none)
  from parse_args_line [OF n] t
  show "parse_args line 0 [] = Parsed (zero_whitespace line) []"
    by auto
next
  show "parse_args ''showmappings 0x1000 0x3000'' 0 []
       = Parsed (zero_whitespace ''showmappings 0x1000 0x3000'') [0, 13, 20]"
    by (simp add: tok_eval zero_whitespace_def)
  show "map (cstr (zero_whitespace ''showmappings 0x1000 0x3000'')) [0, 13, 20]
       = [''showmappings'', ''0x1000'', ''0x3000'']"
    by (simp add: cstr_def zero_whitespace_def WHITESPACE_def NUL_def)
qed

theorem tokenizer_tokens_witness:
  "(\<exists>argv. parse_args ''backtrace  now'' 0 [] = Parsed (zero_whitespace ''backtrace  now'') argv
      \<and> map (cstr (zero_whitespace ''backtrace  now'')) argv = [''backtrace'', ''now''])
   \<and> parse_args ''   '' 0 [] = Parsed [NUL, NUL, NUL] []"
proof -
  have t: "tokens ''backtrace  now'' = [''backtrace'', ''now'']"
    by (simp add: tokens.simps WHITESPACE_def)
  have n: "NUL \<notin> set ''backtrace  now''"
    by (simp add: NUL_def)
  have w: "\<forall>c \<in> set ''   ''. c \<in> set WHITESPACE"
    by (simp add: WHITESPACE_def)
  have z: "zero_whitespace ''   '' = [NUL, NUL, NUL]"
    by (simp add: zero_whitespace_def WHITESPACE_def)
  from tokenizer_tokens [of "''backtrace  now''"] t n
  have "\<exists>argv. parse_args ''backtrace  now'' 0 []
        = Parsed (zero_whitespace ''backtrace  now'') argv
      \<and> map (cstr (zero_whitespace ''backtrace  now'')) argv = [''backtrace'', ''now'']"
    by (simp add: MAXARGS_def)
  moreover from tokenizer_tokens [of "''   ''"] w z
  have "parse_args ''   '' 0 [] = Parsed [NUL, NUL, NUL] []"
    by simp
  ultimately show ?thesis
    by simp
qed

text \<open>
  A line of sixteen tokens is not tokenized into its sixteen runs: the loop stops with
  the first fifteen, and the space after the sixteenth is not zeroed.
\<close>

theorem tokenizer_sixteen_counterexample:
  "tokens sixteen_tokens
     = [''1'', ''2'', ''3'', ''4'', ''5'', ''6'', ''7'', ''8'', ''9'', ''10'', ''11'', ''12'',
        ''13'', ''14'', ''15'', ''16'']
   \<and> parse_args sixteen_tokens 0 []
     = TooMany (take 36 (zero_whitespace sixteen_tokens) @ drop 36 sixteen_tokens)
         [0, 2, 4, 6, 8, 10, 12, 14, 16, 18, 21, 24, 27, 30, 33]
   \<and> take 36 (zero_whitespace sixteen_tokens) @ drop 36 sixteen_tokens
     \<noteq> zero_whitespace sixteen_tokens"
proof (intro conjI)
  show "tokens sixteen_tokens
     = [''1'', ''2'', ''3'', ''4'', ''5'', ''6'', ''7'', ''8'', ''9'', ''10'', ''11'', ''12'',
        ''13'', ''14'', ''15'', ''16'']"
    by (simp add: sixteen_tokens_def tokens.simps WHITESPACE_def)
  show "parse_args sixteen_tokens 0 []
     = TooMany (take 36 (zero_whitespace sixteen_tokens) @ drop 36 sixteen_tokens)
         [0, 2, 4, 6, 8, 10, 12, 14, 16, 18, 21, 24, 27, 30, 33]"
    by (simp add: sixteen_tokens_def tok_eval zero_whitespace_def)
  show "take 36 (zero_whitespace sixteen_tokens) @ drop 36 sixteen_tokens
     \<noteq> zero_whitespace sixteen_tokens"
    by (simp add: sixteen_tokens_def zero_whitespace_def WHITESPACE_def NUL_def)
qed

text \<open>
  C4. For a line with more than \<open>MAXARGS - 1\<close> tokens, the parsing loop stops at the
  sixteenth token with the pointers to the first fifteen, which still point to those
  tokens; \<open>runcmd\<close> prints the too-many-arguments message and returns 0, whatever
  the registry is, so no handler is called.
\<close>

theorem too_many_arguments:
  assumes "NUL \<notin> set line" and "MAXARGS - 1 < length (tokens line)"
  shows "\<exists>b argv. parse_args line 0 [] = TooMany b argv
      \<and> map (cstr b) argv = take (MAXARGS - 1) (tokens line)
      \<and> runcmd cmds line tf s
          = Some (0, s @ [Cprintf ''Too many arguments (max %d)\<newline>'' [AInt 16]])"
proof -
  from assms(2) have l: "\<not> length (tokens line) \<le> 15"
    by (simp add: MAXARGS_def)
  from parse_args_line [OF assms(1)] l obtain b ps
    where p: "parse_args line 0 [] = TooMany b ps" and c: "map (cstr b) ps = take 15 (tokens line)"
    by auto
  from p have "runcmd cmds line tf s
      = Some (0, s @ [Cprintf ''Too many arguments (max %d)\<newline>'' [AInt 16]])"
    by (simp add: runcmd_def MAXARGS_def)
  with p c show ?thesis
    by (simp add: MAXARGS_def)
qed

theorem too_many_arguments_witness:
  "\<exists>b argv. parse_args ''a b c d e f g h i j k l m n o p'' 0 [] = TooMany b argv
      \<and> map (cstr b) argv
          = [''a'', ''b'', ''c'', ''d'', ''e'', ''f'', ''g'', ''h'', ''i'', ''j'', ''k'', ''l'',
             ''m'', ''n'', ''o'']
      \<and> runcmd stop_registry ''a b c d e f g h i j k l m n o p'' () []
          = Some (0, [Cprintf ''Too many arguments (max %d)\<newline>'' [AInt 16]])"
proof -
  have t: "tokens ''a b c d e f g h i j k l m n o p''
      = [''a'', ''b'', ''c'', ''d'', ''e'', ''f'', ''g'', ''h'', ''i'', ''j'', ''k'', ''l'',
         ''m'', ''n'', ''o'', ''p'']"
    by (simp add: tokens.simps WHITESPACE_def)
  have n: "NUL \<notin> set ''a b c d e f g h i j k l m n o p''"
    by (simp add: NUL_def)
  have l: "MAXARGS - 1 < length (tokens ''a b c d e f g h i j k l m n o p'')"
    unfolding t by (simp add: MAXARGS_def)
  from too_many_arguments [OF n l, of stop_registry "()" "[]"] show ?thesis
    unfolding t by (simp add: MAXARGS_def)
qed

end
